theory Spec2Isabelle
  imports Main "HOL-Library.AList"
begin

section \<open>Values, entities and the world the data-access object runs in\<close>

text \<open>
  The development embeds \<^verbatim>\<open>DAO Pattern/data_access_object.py\<close>: the generic
  \<^verbatim>\<open>DataAccessObject\<close> with its synchronous CRUD methods and their fire-and-forget
  counterparts.

  A Python value that is not \<^verbatim>\<open>None\<close> is a \<open>val\<close>; \<^verbatim>\<open>None\<close> (and SQL NULL) is the
  \<open>None\<close> of \<open>val option\<close>. An ORM instance and a table row are both a \<open>row\<close>: the value
  of every attribute by name, an attribute that was never set reading \<^verbatim>\<open>None\<close>, as an
  unset column attribute of a mapped instance does. A primary-key argument has the type
  \<^verbatim>\<open>IdT\<close> of the source, which is not optional: it is a \<open>val\<close>.
\<close>

datatype val = VInt int | VStr string | VBool bool

type_synonym row = "string \<Rightarrow> val option"

type_synonym addr = nat

text \<open>
  An \<open>exn\<close> is an instance of Python's \<^verbatim>\<open>Exception\<close>: its class name and its
  message (\<^verbatim>\<open>str(e)\<close>). Everything the session and the store raise is one.
\<close>

datatype exn = Exn (exn_class: string) (exn_msg: string)

record executor =
  max_workers :: nat
  thread_name_prefix :: string

record log_entry =
  le_logger :: string
  le_message :: string
  le_exception :: exn
  le_logger_name :: string

text \<open>
  The world is everything a call can read or change:
  \<^item> \<open>heap\<close>, \<open>next_addr\<close>: the ORM instances, by reference. A method returns the
    reference of an instance; a caller that mutates the instance changes the heap at
    that reference.
  \<^item> \<open>table\<close>, \<open>sequence\<close>: the rows of the model's table in the store's own order, and
    the next key the store generates for a row inserted without one.
  \<^item> \<open>acquired\<close>, \<open>released\<close>: how many sessions the pool has handed out and taken back.
  \<^item> \<open>stdout\<close>, \<open>logged\<close>: what \<^verbatim>\<open>print\<close> and \<^verbatim>\<open>Logger.error\<close> wrote.
  \<^item> \<open>cpu_count\<close>: the result of \<^verbatim>\<open>os.cpu_count()\<close> on this host.
  \<^item> \<open>executors\<close>: every \<^verbatim>\<open>ThreadPoolExecutor\<close> constructed so far; an executor is
    referred to by its position in this list.
  \<^item> \<open>bg_executor\<close>: the class attribute \<^verbatim>\<open>_bg_executor\<close>, per class: \<open>None\<close> when the
    class's own dictionary has no such entry, \<open>Some v\<close> when it has, \<open>v\<close> being
    \<^verbatim>\<open>None\<close> or an executor.
\<close>

record world =
  heap :: "addr \<Rightarrow> row"
  next_addr :: addr
  table :: "row list"
  sequence :: int
  acquired :: nat
  released :: nat
  stdout :: "string list"
  logged :: "log_entry list"
  cpu_count :: "nat option"
  executors :: "executor list"
  bg_executor :: "string \<Rightarrow> nat option option"

text \<open>
  A data-access object: the name of its class (a subclass of the abstract
  \<^verbatim>\<open>DataAccessObject\<close>), the rest of that class's method resolution order, which ends
  with \<^verbatim>\<open>DataAccessObject\<close>, and \<^verbatim>\<open>primary_key_attribute_name\<close>.
\<close>

record dao =
  class_name :: string
  ancestors :: "string list"
  primary_key_attribute_name :: string

definition base_class :: string where
  "base_class = ''DataAccessObject''"

definition mro :: "dao \<Rightarrow> string list" where
  "mro d = class_name d # ancestors d"

text \<open>
  The process at start: an empty heap, the given table, no session handed out, and the
  class body of \<^verbatim>\<open>DataAccessObject\<close> executed, which sets \<^verbatim>\<open>_bg_executor = None\<close> on
  that class only.
\<close>

definition initial_world :: "row list \<Rightarrow> nat option \<Rightarrow> world" where
  "initial_world rows cpus =
     \<lparr>heap = (\<lambda>_ _. None), next_addr = 0, table = rows, sequence = 1,
      acquired = 0, released = 0, stdout = [], logged = [], cpu_count = cpus,
      executors = [], bg_executor = (\<lambda>_. None)(base_class := Some None)\<rparr>"

section \<open>The session of the object-relational mapper\<close>

text \<open>
  The SQLAlchemy \<^verbatim>\<open>Session\<close> is a library the source calls. Its model keeps what the
  source relies on: the identity map (the persistent instances of the session, each with
  the primary key it was loaded or inserted under), the instances added and not yet
  flushed, and the instances marked for deletion. The store enforces the primary key: no
  two rows share one and no row has a null one.
\<close>

record session =
  identity_map :: "(addr \<times> val option) list"
  pending :: "addr list"
  deleted :: "(addr \<times> val option) list"

type_synonym 'a io = "(exn + 'a) \<times> session \<times> world"

text \<open>Sequencing: an exception of the first step skips the rest.\<close>

definition then_do :: "'a io \<Rightarrow> ('a \<Rightarrow> session \<Rightarrow> world \<Rightarrow> 'b io) \<Rightarrow> 'b io" where
  "then_do r f = (case r of (Inl e, s, w) \<Rightarrow> (Inl e, s, w) | (Inr v, s, w) \<Rightarrow> f v s w)"

definition find_row :: "string \<Rightarrow> val option \<Rightarrow> row list \<Rightarrow> row option" where
  "find_row pk key rows = find (\<lambda>t. t pk = key) rows"

definition in_session :: "addr \<Rightarrow> session \<Rightarrow> bool" where
  "in_session a s = (a \<in> set (map fst (identity_map s) @ pending s @ map fst (deleted s)))"

text \<open>Loading a row: the instance the session already holds for that key, or a new one.\<close>

definition load_row :: "dao \<Rightarrow> row \<Rightarrow> session \<Rightarrow> world \<Rightarrow> addr io" where
  "load_row d r s w =
     (case find (\<lambda>(a, key). key = r (primary_key_attribute_name d)) (identity_map s) of
        Some (a, _) \<Rightarrow> (Inr a, s, w)
      | None \<Rightarrow>
          (Inr (next_addr w),
           s\<lparr>identity_map := identity_map s @ [(next_addr w, r (primary_key_attribute_name d))]\<rparr>,
           w\<lparr>heap := (heap w)(next_addr w := r), next_addr := Suc (next_addr w)\<rparr>))"

fun load_rows :: "dao \<Rightarrow> row list \<Rightarrow> session \<Rightarrow> world \<Rightarrow> (addr list) io" where
  "load_rows d [] s w = (Inr [], s, w)"
| "load_rows d (r # rs) s w =
     then_do (load_row d r s w) (\<lambda>a s1 w1.
       then_do (load_rows d rs s1 w1) (\<lambda>as s2 w2. (Inr (a # as), s2, w2)))"

text \<open>\<^verbatim>\<open>session.get(model, id_value)\<close>: the identity map first, then the table.\<close>

definition session_get :: "dao \<Rightarrow> val \<Rightarrow> session \<Rightarrow> world \<Rightarrow> (addr option) io" where
  "session_get d id_value s w =
     (case find (\<lambda>(a, key). key = Some id_value) (identity_map s) of
        Some (a, _) \<Rightarrow> (Inr (Some a), s, w)
      | None \<Rightarrow>
          (case find_row (primary_key_attribute_name d) (Some id_value) (table w) of
             None \<Rightarrow> (Inr None, s, w)
           | Some r \<Rightarrow> then_do (load_row d r s w) (\<lambda>a s1 w1. (Inr (Some a), s1, w1))))"

definition session_add :: "addr \<Rightarrow> session \<Rightarrow> world \<Rightarrow> unit io" where
  "session_add a s w = (Inr (), s\<lparr>pending := pending s @ [a]\<rparr>, w)"

definition session_delete :: "addr \<Rightarrow> session \<Rightarrow> world \<Rightarrow> unit io" where
  "session_delete a s w =
     (case find (\<lambda>(a', key). a' = a) (identity_map s) of
        None \<Rightarrow> (Inl (Exn ''InvalidRequestError'' ''Instance is not persisted''), s, w)
      | Some (_, key) \<Rightarrow>
          (Inr (),
           s\<lparr>identity_map := filter (\<lambda>(a', key). a' \<noteq> a) (identity_map s),
             deleted := deleted s @ [(a, key)]\<rparr>,
           w))"

definition expunge :: "addr \<Rightarrow> session \<Rightarrow> world \<Rightarrow> unit io" where
  "expunge a s w =
     (if in_session a s
      then (Inr (),
            s\<lparr>identity_map := filter (\<lambda>(a', key). a' \<noteq> a) (identity_map s),
              pending := removeAll a (pending s),
              deleted := filter (\<lambda>(a', key). a' \<noteq> a) (deleted s)\<rparr>,
            w)
      else (Inl (Exn ''InvalidRequestError'' ''Instance is not present in this Session''), s, w))"

text \<open>
  \<^verbatim>\<open>session.flush()\<close>, in three passes.
  \<^item> A persistent instance whose attributes are those of its row is left alone. For one
    that was changed, an UPDATE of the row it was loaded from: the store takes the old
    version of the row out and puts the new version at the end of its order. The
    statement is rejected when the new primary key is null or is the key of another row.
  \<^item> For every added instance, an INSERT: the store generates the key when the instance
    has none, and appends the row. The statement is rejected when a row has the key.
  \<^item> For every instance marked so, a DELETE.

  A rejected statement makes the flush raise; what the flush wrote to the table is
  undone, the keys it drew from the sequence are not given back.
\<close>

fun flush_dirty ::
  "string \<Rightarrow> (addr \<times> val option) list \<Rightarrow> world \<Rightarrow> exn + ((addr \<times> val option) list \<times> world)" where
  "flush_dirty pk [] w = Inr ([], w)"
| "flush_dirty pk ((a, key) # rest) w =
     (case find_row pk key (table w) of
        None \<Rightarrow> Inl (Exn ''StaleDataError''
                     ''UPDATE statement expected to update 1 row; 0 were matched'')
      | Some old \<Rightarrow>
          if old = heap w a
          then (case flush_dirty pk rest w of
                  Inl e \<Rightarrow> Inl e
                | Inr (im, w') \<Rightarrow> Inr ((a, key) # im, w'))
          else
            (case heap w a pk of
               None \<Rightarrow> Inl (Exn ''IntegrityError'' ''null value in primary key column'')
             | Some v \<Rightarrow>
                 if Some v = key \<or> find_row pk (Some v) (table w) = None
                 then (case flush_dirty pk rest
                              (w\<lparr>table := filter (\<lambda>t. t pk \<noteq> key) (table w) @ [heap w a]\<rparr>) of
                         Inl e \<Rightarrow> Inl e
                       | Inr (im, w') \<Rightarrow> Inr ((a, Some v) # im, w'))
                 else Inl (Exn ''IntegrityError''
                             ''duplicate key value violates unique constraint'')))"

fun flush_new ::
  "string \<Rightarrow> addr list \<Rightarrow> world \<Rightarrow> (exn \<times> int) + ((addr \<times> val option) list \<times> world)" where
  "flush_new pk [] w = Inr ([], w)"
| "flush_new pk (a # rest) w =
     (let key = (case heap w a pk of None \<Rightarrow> VInt (sequence w) | Some v \<Rightarrow> v);
          seq = (case heap w a pk of None \<Rightarrow> sequence w + 1 | Some v \<Rightarrow> sequence w);
          r = (heap w a)(pk := Some key)
      in if find_row pk (Some key) (table w) = None
         then (case flush_new pk rest
                       (w\<lparr>heap := (heap w)(a := r), table := table w @ [r], sequence := seq\<rparr>) of
                 Inl e \<Rightarrow> Inl e
               | Inr (im, w') \<Rightarrow> Inr ((a, Some key) # im, w'))
         else Inl (Exn ''IntegrityError'' ''duplicate key value violates unique constraint'',
                   seq))"

definition flush_deleted :: "string \<Rightarrow> (addr \<times> val option) list \<Rightarrow> row list \<Rightarrow> row list" where
  "flush_deleted pk dels rows = fold (\<lambda>(a, key) ts. filter (\<lambda>t. t pk \<noteq> key) ts) dels rows"

definition flush :: "dao \<Rightarrow> session \<Rightarrow> world \<Rightarrow> unit io" where
  "flush d s w =
     (case flush_dirty (primary_key_attribute_name d) (identity_map s) w of
        Inl e \<Rightarrow> (Inl e, s, w)
      | Inr (im1, w1) \<Rightarrow>
          (case flush_new (primary_key_attribute_name d) (pending s) w1 of
             Inl (e, seq) \<Rightarrow> (Inl e, s, w\<lparr>sequence := seq\<rparr>)
           | Inr (im2, w2) \<Rightarrow>
               (Inr (),
                \<lparr>identity_map = im1 @ im2, pending = [], deleted = []\<rparr>,
                w2\<lparr>table := flush_deleted (primary_key_attribute_name d) (deleted s) (table w2)\<rparr>)))"

text \<open>\<^verbatim>\<open>session.refresh(row)\<close>: the attributes of a persistent instance, read again.\<close>

definition refresh :: "dao \<Rightarrow> addr \<Rightarrow> session \<Rightarrow> world \<Rightarrow> unit io" where
  "refresh d a s w =
     (case find (\<lambda>(a', key). a' = a) (identity_map s) of
        None \<Rightarrow> (Inl (Exn ''InvalidRequestError'' ''Instance is not persistent within this Session''), s, w)
      | Some (_, key) \<Rightarrow>
          (case find_row (primary_key_attribute_name d) key (table w) of
             None \<Rightarrow> (Inl (Exn ''InvalidRequestError'' ''Could not refresh instance''), s, w)
           | Some r \<Rightarrow> (Inr (), s, w\<lparr>heap := (heap w)(a := r)\<rparr>)))"

text \<open>
  \<^verbatim>\<open>setattr(row, key, value)\<close> on an instance, and the model's constructor, which sets
  each keyword argument as an attribute of a new instance.
\<close>

definition setattr :: "addr \<Rightarrow> string \<Rightarrow> val option \<Rightarrow> world \<Rightarrow> world" where
  "setattr a key v w = w\<lparr>heap := (heap w)(a := (heap w a)(key := v))\<rparr>"

definition assign_all :: "(string \<times> val option) list \<Rightarrow> row \<Rightarrow> row" where
  "assign_all items r = fold (\<lambda>(key, v) r'. r'(key := v)) items r"

definition model_new :: "(string \<times> val option) list \<Rightarrow> world \<Rightarrow> addr \<times> world" where
  "model_new kwargs w =
     (next_addr w,
      w\<lparr>heap := (heap w)(next_addr w := assign_all kwargs (\<lambda>_. None)),
        next_addr := Suc (next_addr w)\<rparr>)"

text \<open>\<^verbatim>\<open>dict.update\<close>: an existing key keeps its place and takes the new value.\<close>

definition dict_update ::
  "(string \<times> val option) list \<Rightarrow> (string \<times> val option) list \<Rightarrow> (string \<times> val option) list" where
  "dict_update d items = fold (\<lambda>(key, v) acc. AList.update key v acc) items d"

subsection \<open>Queries\<close>

text \<open>
  A \<^verbatim>\<open>Query\<close> collects criteria, an ordering, an offset and a limit; the store applies
  them in that order when the query runs, whatever the order of the calls. An
  \<^verbatim>\<open>order_by\<close> expression is taken as the rearrangement of the rows it stands for.
\<close>

record query =
  q_criteria :: "(row \<Rightarrow> bool) list"
  q_order_by :: "(row list \<Rightarrow> row list) option"
  q_offset :: "nat option"
  q_limit :: "nat option"

definition session_query :: query where
  "session_query = \<lparr>q_criteria = [], q_order_by = None, q_offset = None, q_limit = None\<rparr>"

definition filter_by :: "(string \<times> val option) list \<Rightarrow> query \<Rightarrow> query" where
  "filter_by filters q =
     q\<lparr>q_criteria := q_criteria q @ [\<lambda>t. list_all (\<lambda>(key, v). t key = v) filters]\<rparr>"

definition filter_eq :: "string \<Rightarrow> val \<Rightarrow> query \<Rightarrow> query" where
  "filter_eq col v q = q\<lparr>q_criteria := q_criteria q @ [\<lambda>t. t col = Some v]\<rparr>"

definition order_by_q :: "(row list \<Rightarrow> row list) \<Rightarrow> query \<Rightarrow> query" where
  "order_by_q ob q = q\<lparr>q_order_by := Some ob\<rparr>"

definition offset_q :: "int \<Rightarrow> query \<Rightarrow> query" where
  "offset_q n q = q\<lparr>q_offset := Some (nat n)\<rparr>"

definition limit_q :: "int \<Rightarrow> query \<Rightarrow> query" where
  "limit_q n q = q\<lparr>q_limit := Some (nat n)\<rparr>"

definition select_rows :: "query \<Rightarrow> row list \<Rightarrow> row list" where
  "select_rows q rows =
     (let r1 = filter (\<lambda>t. list_all (\<lambda>c. c t) (q_criteria q)) rows;
          r2 = (case q_order_by q of None \<Rightarrow> r1 | Some ob \<Rightarrow> ob r1);
          r3 = (case q_offset q of None \<Rightarrow> r2 | Some n \<Rightarrow> drop n r2)
      in case q_limit q of None \<Rightarrow> r3 | Some n \<Rightarrow> take n r3)"

definition query_all :: "dao \<Rightarrow> query \<Rightarrow> session \<Rightarrow> world \<Rightarrow> (addr list) io" where
  "query_all d q s w = load_rows d (select_rows q (table w)) s w"

definition query_first :: "dao \<Rightarrow> query \<Rightarrow> session \<Rightarrow> world \<Rightarrow> (addr option) io" where
  "query_first d q s w =
     (case select_rows (q\<lparr>q_limit := Some 1\<rparr>) (table w) of
        [] \<Rightarrow> (Inr None, s, w)
      | r # _ \<Rightarrow> then_do (load_row d r s w) (\<lambda>a s1 w1. (Inr (Some a), s1, w1)))"

section \<open>Session management of the data-access object\<close>

text \<open>
  Modelled from the spec: \<^verbatim>\<open>PostgresConnection.get_session\<close> (module
  \<^verbatim>\<open>database.psql_connection\<close>) is not among the sources. The spec's unit of work is
  acquired from the pool, handed to the caller's function, and released on every exit
  path, the flushed writes being visible by then. The pool hands out a new, empty session
  at every request.
\<close>

definition get_session :: "world \<Rightarrow> session \<times> world" where
  "get_session w =
     (\<lparr>identity_map = [], pending = [], deleted = []\<rparr>, w\<lparr>acquired := Suc (acquired w)\<rparr>)"

definition release_session :: "session \<Rightarrow> world \<Rightarrow> world" where
  "release_session s w = w\<lparr>released := Suc (released w)\<rparr>"

text \<open>
  \<^verbatim>\<open>session_scope\<close> and \<^verbatim>\<open>_run_in_session\<close>: \<^verbatim>\<open>fn\<close> runs inside one session; its
  result or its exception leaves the \<^verbatim>\<open>with\<close> block, which releases the session.
\<close>

definition run_in_session ::
  "dao \<Rightarrow> (session \<Rightarrow> world \<Rightarrow> 'a io) \<Rightarrow> world \<Rightarrow> (exn + 'a) \<times> world" where
  "run_in_session d fn w =
     (case get_session w of
        (s, w1) \<Rightarrow> (case fn s w1 of (r, s', w2) \<Rightarrow> (r, release_session s' w2)))"

section \<open>The shared background executor\<close>

text \<open>
  \<^verbatim>\<open>cls._bg_executor\<close> read on a class: the entry of the first class of the method
  resolution order whose dictionary has one.
\<close>

fun class_getattr :: "(string \<Rightarrow> nat option option) \<Rightarrow> string list \<Rightarrow> nat option" where
  "class_getattr attrs [] = None"
| "class_getattr attrs (c # cs) =
     (case attrs c of Some v \<Rightarrow> v | None \<Rightarrow> class_getattr attrs cs)"

text \<open>\<^verbatim>\<open>os.cpu_count() or 1\<close>: \<^verbatim>\<open>None\<close> and \<^verbatim>\<open>0\<close> are falsy.\<close>

definition cpu_count_or_1 :: "world \<Rightarrow> nat" where
  "cpu_count_or_1 w = (case cpu_count w of None \<Rightarrow> 1 | Some n \<Rightarrow> if n = 0 then 1 else n)"

text \<open>
  \<^verbatim>\<open>_get_bg_executor\<close>, a class method: \<^verbatim>\<open>cls\<close> is the class of the instance it is
  called on. The attribute is read through the method resolution order, once before
  taking \<^verbatim>\<open>_bg_lock\<close> and once under it; the new executor is assigned to
  \<^verbatim>\<open>cls._bg_executor\<close>, an entry of the dictionary of \<^verbatim>\<open>cls\<close> itself. One call runs
  without interruption here, so taking and leaving the lock changes nothing.
\<close>

definition get_bg_executor :: "dao \<Rightarrow> world \<Rightarrow> nat \<times> world" where
  "get_bg_executor d w =
     (case class_getattr (bg_executor w) (mro d) of
        Some ex \<Rightarrow> (ex, w)
      | None \<Rightarrow>
          (case class_getattr (bg_executor w) (mro d) of
             Some ex \<Rightarrow> (ex, w)
           | None \<Rightarrow>
               (let workers = max 4 (cpu_count_or_1 w);
                    ex = length (executors w)
                in (ex,
                    w\<lparr>executors := executors w @
                         [\<lparr>max_workers = workers, thread_name_prefix = ''dao-bg''\<rparr>],
                      bg_executor := (bg_executor w)(class_name d := Some (Some ex))\<rparr>))))"

text \<open>
  A \<^verbatim>\<open>Future\<close> is known by the executor it was submitted to and by what it resolves
  to. \<open>submit\<close> runs the task to its end: the world it returns is the world once the
  task is done, and the future holds the task's result or the exception that left it.
\<close>

datatype 'a future = Future (future_executor: nat) (future_outcome: "exn + 'a")

definition submit :: "nat \<Rightarrow> (world \<Rightarrow> (exn + 'a) \<times> world) \<Rightarrow> world \<Rightarrow> 'a future \<times> world" where
  "submit ex task w = (case task w of (r, w') \<Rightarrow> (Future ex r, w'))"

definition print_line :: "string \<Rightarrow> world \<Rightarrow> world" where
  "print_line text w = w\<lparr>stdout := stdout w @ [text]\<rparr>"

definition logger_error :: "dao \<Rightarrow> string \<Rightarrow> exn \<Rightarrow> string \<Rightarrow> world \<Rightarrow> world" where
  "logger_error d msg e name w =
     w\<lparr>logged := logged w @
         [\<lparr>le_logger = class_name d, le_message = msg, le_exception = e, le_logger_name = name\<rparr>]\<rparr>"

text \<open>\<^verbatim>\<open>_runner\<close> of \<^verbatim>\<open>_submit_background\<close>: log and raise again.\<close>

definition runner ::
  "dao \<Rightarrow> (session \<Rightarrow> world \<Rightarrow> 'a io) \<Rightarrow> world \<Rightarrow> (exn + 'a) \<times> world" where
  "runner d fn w =
     (case run_in_session d fn w of
        (Inr v, w1) \<Rightarrow> (Inr v, w1)
      | (Inl e, w1) \<Rightarrow>
          (Inl e,
           logger_error d ''Background DAO operation failed'' e (class_name d)
             (print_line (exn_msg e) w1)))"

definition submit_background ::
  "dao \<Rightarrow> (session \<Rightarrow> world \<Rightarrow> 'a io) \<Rightarrow> world \<Rightarrow> 'a future \<times> world" where
  "submit_background d fn w =
     (case get_bg_executor d w of (ex, w1) \<Rightarrow> submit ex (runner d fn) w1)"

section \<open>Synchronous operations\<close>

definition get_op :: "dao \<Rightarrow> val \<Rightarrow> session \<Rightarrow> world \<Rightarrow> (addr option) io" where
  "get_op d id_value s w =
     then_do (session_get d id_value s w) (\<lambda>row s1 w1.
       case row of
         None \<Rightarrow> (Inr None, s1, w1)
       | Some a \<Rightarrow> then_do (expunge a s1 w1) (\<lambda>_ s2 w2. (Inr (Some a), s2, w2)))"

definition get :: "dao \<Rightarrow> val \<Rightarrow> world \<Rightarrow> (exn + addr option) \<times> world" where
  "get d id_value w = run_in_session d (get_op d id_value) w"

text \<open>\<^verbatim>\<open>for row in rows: session.expunge(row)\<close>\<close>

fun expunge_each :: "addr list \<Rightarrow> session \<Rightarrow> world \<Rightarrow> unit io" where
  "expunge_each [] s w = (Inr (), s, w)"
| "expunge_each (a # as) s w = then_do (expunge a s w) (\<lambda>_ s1 w1. expunge_each as s1 w1)"

definition paginate :: "int \<Rightarrow> int \<Rightarrow> query \<Rightarrow> query" where
  "paginate limit offset q =
     (let q1 = (if offset > 0 then offset_q offset q else q)
      in if limit > 0 then limit_q limit q1 else q1)"

definition list_op :: "dao \<Rightarrow> int \<Rightarrow> int \<Rightarrow> session \<Rightarrow> world \<Rightarrow> (addr list) io" where
  "list_op d limit offset s w =
     then_do (query_all d (paginate limit offset session_query) s w) (\<lambda>rows s1 w1.
       then_do (expunge_each rows s1 w1) (\<lambda>_ s2 w2. (Inr rows, s2, w2)))"

definition list_dao :: "dao \<Rightarrow> int \<Rightarrow> int \<Rightarrow> world \<Rightarrow> (exn + addr list) \<times> world" where
  "list_dao d limit offset w = run_in_session d (list_op d limit offset) w"

definition list_by_op ::
  "dao \<Rightarrow> int \<Rightarrow> int \<Rightarrow> (string \<times> val option) list \<Rightarrow> session \<Rightarrow> world \<Rightarrow> (addr list) io" where
  "list_by_op d limit offset filters s w =
     then_do (query_all d (paginate limit offset (filter_by filters session_query)) s w)
       (\<lambda>rows s1 w1.
         then_do (expunge_each rows s1 w1) (\<lambda>_ s2 w2. (Inr rows, s2, w2)))"

definition list_by ::
  "dao \<Rightarrow> int \<Rightarrow> int \<Rightarrow> (string \<times> val option) list \<Rightarrow> world \<Rightarrow> (exn + addr list) \<times> world" where
  "list_by d limit offset filters w = run_in_session d (list_by_op d limit offset filters) w"

definition list_by_order_by_op ::
  "dao \<Rightarrow> (row list \<Rightarrow> row list) \<Rightarrow> int \<Rightarrow> int \<Rightarrow> (string \<times> val option) list \<Rightarrow>
   session \<Rightarrow> world \<Rightarrow> (addr list) io" where
  "list_by_order_by_op d order_by limit offset filters s w =
     then_do
       (query_all d
          (paginate limit offset (order_by_q order_by (filter_by filters session_query))) s w)
       (\<lambda>rows s1 w1.
         then_do (expunge_each rows s1 w1) (\<lambda>_ s2 w2. (Inr rows, s2, w2)))"

definition list_by_order_by ::
  "dao \<Rightarrow> (row list \<Rightarrow> row list) \<Rightarrow> int \<Rightarrow> int \<Rightarrow> (string \<times> val option) list \<Rightarrow>
   world \<Rightarrow> (exn + addr list) \<times> world" where
  "list_by_order_by d order_by limit offset filters w =
     run_in_session d (list_by_order_by_op d order_by limit offset filters) w"

definition exists_op :: "dao \<Rightarrow> val \<Rightarrow> session \<Rightarrow> world \<Rightarrow> (addr option) io" where
  "exists_op d id_value s w =
     then_do
       (query_first d (filter_eq (primary_key_attribute_name d) id_value session_query) s w)
       (\<lambda>res s1 w1.
         case res of
           None \<Rightarrow> (Inr None, s1, w1)
         | Some a \<Rightarrow> then_do (expunge a s1 w1) (\<lambda>_ s2 w2. (Inr (Some a), s2, w2)))"

definition exists_dao :: "dao \<Rightarrow> val \<Rightarrow> world \<Rightarrow> (exn + addr option) \<times> world" where
  "exists_dao d id_value w = run_in_session d (exists_op d id_value) w"

definition create_write ::
  "dao \<Rightarrow> (string \<times> val option) list \<Rightarrow> session \<Rightarrow> world \<Rightarrow> addr io" where
  "create_write d fields' s w =
     (case model_new fields' w of
        (row, w0) \<Rightarrow>
          then_do (session_add row s w0) (\<lambda>_ s1 w1.
            then_do (flush d s1 w1) (\<lambda>_ s2 w2.
              then_do (refresh d row s2 w2) (\<lambda>_ s3 w3.
                then_do (expunge row s3 w3) (\<lambda>_ s4 w4. (Inr row, s4, w4))))))"

definition create :: "dao \<Rightarrow> (string \<times> val option) list \<Rightarrow> world \<Rightarrow> (exn + addr) \<times> world" where
  "create d fields' w = run_in_session d (create_write d fields') w"

text \<open>\<^verbatim>\<open>for key, value in fields.items(): setattr(row, key, value)\<close>\<close>

definition setattr_all :: "addr \<Rightarrow> (string \<times> val option) list \<Rightarrow> world \<Rightarrow> world" where
  "setattr_all a fields' w = fold (\<lambda>(key, v) w'. setattr a key v w') fields' w"

definition update_write ::
  "dao \<Rightarrow> val \<Rightarrow> (string \<times> val option) list \<Rightarrow> session \<Rightarrow> world \<Rightarrow> (addr option) io" where
  "update_write d id_value fields' s w =
     then_do (session_get d id_value s w) (\<lambda>row s1 w1.
       case row of
         None \<Rightarrow> (Inr None, s1, w1)
       | Some a \<Rightarrow>
           then_do (flush d s1 (setattr_all a fields' w1)) (\<lambda>_ s2 w2.
             then_do (refresh d a s2 w2) (\<lambda>_ s3 w3.
               then_do (expunge a s3 w3) (\<lambda>_ s4 w4. (Inr (Some a), s4, w4)))))"

definition update ::
  "dao \<Rightarrow> val \<Rightarrow> (string \<times> val option) list \<Rightarrow> world \<Rightarrow> (exn + addr option) \<times> world" where
  "update d id_value fields' w = run_in_session d (update_write d id_value fields') w"

definition upsert_write ::
  "dao \<Rightarrow> val \<Rightarrow> (string \<times> val option) list \<Rightarrow> session \<Rightarrow> world \<Rightarrow> addr io" where
  "upsert_write d id_value fields' s w =
     then_do (session_get d id_value s w) (\<lambda>existing_row s1 w1.
       case existing_row of
         None \<Rightarrow>
           (case model_new
                   (dict_update [(primary_key_attribute_name d, Some id_value)] fields') w1 of
              (new_row, w2) \<Rightarrow>
                then_do (session_add new_row s1 w2) (\<lambda>_ s3 w3.
                  then_do (flush d s3 w3) (\<lambda>_ s4 w4.
                    then_do (refresh d new_row s4 w4) (\<lambda>_ s5 w5.
                      then_do (expunge new_row s5 w5) (\<lambda>_ s6 w6. (Inr new_row, s6, w6))))))
       | Some a \<Rightarrow>
           then_do (flush d s1 (setattr_all a fields' w1)) (\<lambda>_ s2 w2.
             then_do (refresh d a s2 w2) (\<lambda>_ s3 w3.
               then_do (expunge a s3 w3) (\<lambda>_ s4 w4. (Inr a, s4, w4)))))"

definition upsert ::
  "dao \<Rightarrow> val \<Rightarrow> (string \<times> val option) list \<Rightarrow> world \<Rightarrow> (exn + addr) \<times> world" where
  "upsert d id_value fields' w = run_in_session d (upsert_write d id_value fields') w"

definition delete_write :: "dao \<Rightarrow> val \<Rightarrow> session \<Rightarrow> world \<Rightarrow> bool io" where
  "delete_write d id_value s w =
     then_do (session_get d id_value s w) (\<lambda>row s1 w1.
       case row of
         None \<Rightarrow> (Inr False, s1, w1)
       | Some a \<Rightarrow>
           then_do (session_delete a s1 w1) (\<lambda>_ s2 w2.
             then_do (flush d s2 w2) (\<lambda>_ s3 w3. (Inr True, s3, w3))))"

definition delete :: "dao \<Rightarrow> val \<Rightarrow> world \<Rightarrow> (exn + bool) \<times> world" where
  "delete d id_value w = run_in_session d (delete_write d id_value) w"

section \<open>Fire-and-forget counterparts\<close>

text \<open>
  \<^verbatim>\<open>create_ff\<close> and \<^verbatim>\<open>delete_ff\<close> submit a function of their own that works in the
  session it is given. \<^verbatim>\<open>update_ff\<close> and \<^verbatim>\<open>upsert_ff\<close> submit
  \<^verbatim>\<open>lambda session: self.update(id_value, **fields)\<close> (and the same with
  \<^verbatim>\<open>upsert\<close>): the function leaves its session alone and calls the synchronous method.
\<close>

definition create_ff_write ::
  "dao \<Rightarrow> (string \<times> val option) list \<Rightarrow> session \<Rightarrow> world \<Rightarrow> addr io" where
  "create_ff_write d fields' s w =
     (case model_new fields' w of
        (row_any, w0) \<Rightarrow>
          then_do (session_add row_any s w0) (\<lambda>_ s1 w1.
            then_do (flush d s1 w1) (\<lambda>_ s2 w2.
              then_do (refresh d row_any s2 w2) (\<lambda>_ s3 w3.
                then_do (expunge row_any s3 w3) (\<lambda>_ s4 w4. (Inr row_any, s4, w4))))))"

definition create_ff ::
  "dao \<Rightarrow> (string \<times> val option) list \<Rightarrow> world \<Rightarrow> addr future \<times> world" where
  "create_ff d fields' w = submit_background d (create_ff_write d fields') w"

definition update_ff ::
  "dao \<Rightarrow> val \<Rightarrow> (string \<times> val option) list \<Rightarrow> world \<Rightarrow> (addr option) future \<times> world" where
  "update_ff d id_value fields' w =
     submit_background d
       (\<lambda>session w1. case update d id_value fields' w1 of (r, w2) \<Rightarrow> (r, session, w2)) w"

definition upsert_ff ::
  "dao \<Rightarrow> val \<Rightarrow> (string \<times> val option) list \<Rightarrow> world \<Rightarrow> addr future \<times> world" where
  "upsert_ff d id_value fields' w =
     submit_background d
       (\<lambda>session w1. case upsert d id_value fields' w1 of (r, w2) \<Rightarrow> (r, session, w2)) w"

definition delete_ff_write :: "dao \<Rightarrow> val \<Rightarrow> session \<Rightarrow> world \<Rightarrow> bool io" where
  "delete_ff_write d id_value s w =
     then_do (session_get d id_value s w) (\<lambda>row s1 w1.
       case row of
         None \<Rightarrow> (Inr False, s1, w1)
       | Some a \<Rightarrow>
           then_do (session_delete a s1 w1) (\<lambda>_ s2 w2.
             then_do (flush d s2 w2) (\<lambda>_ s3 w3. (Inr True, s3, w3))))"

definition delete_ff :: "dao \<Rightarrow> val \<Rightarrow> world \<Rightarrow> bool future \<times> world" where
  "delete_ff d id_value w = submit_background d (delete_ff_write d id_value) w"

definition run_custom ::
  "dao \<Rightarrow> (session \<Rightarrow> world \<Rightarrow> 'a io) \<Rightarrow> world \<Rightarrow> (exn + 'a) \<times> world" where
  "run_custom d fn w = run_in_session d fn w"

section \<open>Notions used in the statements\<close>

text \<open>The two counters of the pool, read together.\<close>

definition pool_counts :: "world \<Rightarrow> nat \<times> nat" where
  "pool_counts w = (acquired w, released w)"

text \<open>
  What the background executor is made of: the executors constructed so far, the
  \<^verbatim>\<open>_bg_executor\<close> attribute of each class, and the processor count of the host.
\<close>

definition executor_state ::
  "world \<Rightarrow> executor list \<times> (string \<Rightarrow> nat option option) \<times> nat option" where
  "executor_state w = (executors w, bg_executor w, cpu_count w)"

text \<open>The primary key at work: no two rows of the table share a key.\<close>

definition keys_distinct :: "dao \<Rightarrow> world \<Rightarrow> bool" where
  "keys_distinct d w = distinct (map (\<lambda>t. t (primary_key_attribute_name d)) (table w))"

text \<open>
  \<open>expunged_result d s0 w0 e s\<close>: run in the session \<open>s0\<close> and the world \<open>w0\<close>, the
  function that \<^verbatim>\<open>get\<close>, \<^verbatim>\<open>list\<close>, \<^verbatim>\<open>create\<close>, \<^verbatim>\<open>update\<close> or \<^verbatim>\<open>upsert\<close> hands
  to \<^verbatim>\<open>_run_in_session\<close> returns the instance \<open>e\<close> (alone or in its list) and leaves
  the session as \<open>s\<close>.
\<close>

inductive expunged_result :: "dao \<Rightarrow> session \<Rightarrow> world \<Rightarrow> addr \<Rightarrow> session \<Rightarrow> bool" where
  "get_op d k s0 w0 = (Inr (Some e), s, w) \<Longrightarrow> expunged_result d s0 w0 e s"
| "list_op d limit offset s0 w0 = (Inr es, s, w) \<Longrightarrow> e \<in> set es \<Longrightarrow>
   expunged_result d s0 w0 e s"
| "create_write d fields' s0 w0 = (Inr e, s, w) \<Longrightarrow> expunged_result d s0 w0 e s"
| "update_write d k fields' s0 w0 = (Inr (Some e), s, w) \<Longrightarrow> expunged_result d s0 w0 e s"
| "upsert_write d k fields' s0 w0 = (Inr e, s, w) \<Longrightarrow> expunged_result d s0 w0 e s"

text \<open>
  \<open>returned d w0 e w\<close>: called in the world \<open>w0\<close>, one of the five methods returns the
  instance \<open>e\<close> (alone or in its list) and leaves the world \<open>w\<close>.
\<close>

inductive returned :: "dao \<Rightarrow> world \<Rightarrow> addr \<Rightarrow> world \<Rightarrow> bool" where
  "get d k w0 = (Inr (Some e), w) \<Longrightarrow> returned d w0 e w"
| "list_dao d limit offset w0 = (Inr es, w) \<Longrightarrow> e \<in> set es \<Longrightarrow> returned d w0 e w"
| "create d fields' w0 = (Inr e, w) \<Longrightarrow> returned d w0 e w"
| "update d k fields' w0 = (Inr (Some e), w) \<Longrightarrow> returned d w0 e w"
| "upsert d k fields' w0 = (Inr e, w) \<Longrightarrow> returned d w0 e w"

section \<open>Instances used in the examples\<close>

text \<open>
  Two subclasses as an application declares them, each deriving directly from
  \<^verbatim>\<open>DataAccessObject\<close> and keeping the default primary-key name, and a row of a table
  with the columns \<^verbatim>\<open>id\<close> and \<^verbatim>\<open>name\<close>.
\<close>

definition user_dao :: dao where
  "user_dao =
     \<lparr>class_name = ''UserDAO'', ancestors = [base_class], primary_key_attribute_name = ''id''\<rparr>"

definition order_dao :: dao where
  "order_dao =
     \<lparr>class_name = ''OrderDAO'', ancestors = [base_class], primary_key_attribute_name = ''id''\<rparr>"

definition user_row :: "int \<Rightarrow> string \<Rightarrow> row" where
  "user_row i n = (\<lambda>_. None)(''id'' := Some (VInt i), ''name'' := Some (VStr n))"

section \<open>Running an operation in a new session\<close>

lemma then_do_Inl [simp]: "then_do (Inl e, s, w) f = (Inl e, s, w)"
  by (simp add: then_do_def)

lemma then_do_Inr [simp]: "then_do (Inr v, s, w) f = f v s w"
  by (simp add: then_do_def)

lemma find_row_Some_key: "find_row pk key rows = Some r \<Longrightarrow> r pk = key"
  by (auto simp: find_row_def find_Some_iff)

lemma load_row_fresh:
  "load_row d r \<lparr>identity_map = [], pending = [], deleted = []\<rparr> w =
     (Inr (next_addr w),
      \<lparr>identity_map = [(next_addr w, r (primary_key_attribute_name d))],
       pending = [], deleted = []\<rparr>,
      w\<lparr>heap := (heap w)(next_addr w := r), next_addr := Suc (next_addr w)\<rparr>)"
  by (simp add: load_row_def)

lemma session_get_fresh:
  "session_get d k \<lparr>identity_map = [], pending = [], deleted = []\<rparr> w =
     (case find_row (primary_key_attribute_name d) (Some k) (table w) of
        None \<Rightarrow> (Inr None, \<lparr>identity_map = [], pending = [], deleted = []\<rparr>, w)
      | Some r \<Rightarrow>
          (Inr (Some (next_addr w)),
           \<lparr>identity_map = [(next_addr w, Some k)], pending = [], deleted = []\<rparr>,
           w\<lparr>heap := (heap w)(next_addr w := r), next_addr := Suc (next_addr w)\<rparr>))"
  by (auto simp: session_get_def load_row_fresh split: option.splits dest: find_row_Some_key)

lemma user_table_lookup:
  "find_row ''id'' (Some (VInt i)) [user_row j n] = (if i = j then Some (user_row j n) else None)"
  by (simp add: find_row_def user_row_def)

lemma io_collapse: "fst x = r \<Longrightarrow> x = (r, fst (snd x), snd (snd x))"
  by (cases x) auto

section \<open>Reading one row: get and exists\<close>

lemma get_absent:
  "find_row (primary_key_attribute_name d) (Some k) (table w) = None \<Longrightarrow>
   get d k w = (Inr None, w\<lparr>acquired := Suc (acquired w), released := Suc (released w)\<rparr>)"
  by (simp add: get_def run_in_session_def get_session_def get_op_def session_get_fresh
      release_session_def)

lemma get_present:
  "find_row (primary_key_attribute_name d) (Some k) (table w) = Some r \<Longrightarrow>
   get d k w =
     (Inr (Some (next_addr w)),
      w\<lparr>heap := (heap w)(next_addr w := r), next_addr := Suc (next_addr w),
        acquired := Suc (acquired w), released := Suc (released w)\<rparr>)"
  by (simp add: get_def run_in_session_def get_session_def get_op_def session_get_fresh
      release_session_def expunge_def in_session_def)

lemma first_of_filter:
  "(case take (Suc 0) (filter P xs) of [] \<Rightarrow> a | r # _ \<Rightarrow> f r) =
   (case find P xs of None \<Rightarrow> a | Some r \<Rightarrow> f r)"
  by (induction xs) auto

lemma exists_op_fresh:
  "exists_op d k \<lparr>identity_map = [], pending = [], deleted = []\<rparr> w =
   get_op d k \<lparr>identity_map = [], pending = [], deleted = []\<rparr> w"
  apply (simp add: exists_op_def get_op_def query_first_def select_rows_def filter_eq_def
      session_query_def session_get_fresh first_of_filter load_row_fresh find_row_def
      split: option.splits)
  apply (auto simp: find_Some_iff)
  done

text \<open>
  Claim C8. For every key and every state of the store, \<^verbatim>\<open>exists\<close> returns what
  \<^verbatim>\<open>get\<close> returns and leaves the same world behind: \<^verbatim>\<open>None\<close> when no row has that
  primary key, and otherwise a new instance holding the attributes of the row with
  that key.
\<close>

theorem exists_same_as_get:
  "exists_dao d k w = get d k w \<and>
   (case find_row (primary_key_attribute_name d) (Some k) (table w) of
      None \<Rightarrow> fst (get d k w) = Inr None
    | Some r \<Rightarrow>
        fst (get d k w) = Inr (Some (next_addr w)) \<and>
        heap (snd (get d k w)) (next_addr w) = r \<and>
        r (primary_key_attribute_name d) = Some k)"
proof -
  have "exists_dao d k w = get d k w"
    by (simp add: exists_dao_def get_def run_in_session_def get_session_def exists_op_fresh)
  moreover have
    "case find_row (primary_key_attribute_name d) (Some k) (table w) of
       None \<Rightarrow> fst (get d k w) = Inr None
     | Some r \<Rightarrow>
         fst (get d k w) = Inr (Some (next_addr w)) \<and>
         heap (snd (get d k w)) (next_addr w) = r \<and>
         r (primary_key_attribute_name d) = Some k"
    by (auto simp: get_absent get_present split: option.splits dest: find_row_Some_key)
  ultimately show ?thesis by blast
qed

section \<open>Deleting a row\<close>

lemma delete_absent:
  "find_row (primary_key_attribute_name d) (Some k) (table w) = None \<Longrightarrow>
   delete d k w = (Inr False, w\<lparr>acquired := Suc (acquired w), released := Suc (released w)\<rparr>)"
  by (simp add: delete_def run_in_session_def get_session_def delete_write_def session_get_fresh
      release_session_def)

lemma delete_present:
  "find_row (primary_key_attribute_name d) (Some k) (table w) = Some r \<Longrightarrow>
   delete d k w =
     (Inr True,
      w\<lparr>heap := (heap w)(next_addr w := r), next_addr := Suc (next_addr w),
        table := filter (\<lambda>t. t (primary_key_attribute_name d) \<noteq> Some k) (table w),
        acquired := Suc (acquired w), released := Suc (released w)\<rparr>)"
  by (simp add: delete_def run_in_session_def get_session_def delete_write_def session_get_fresh
      release_session_def session_delete_def flush_def flush_deleted_def)

lemma find_row_filter_out: "find_row pk key (filter (\<lambda>t. t pk \<noteq> key) rows) = None"
  by (simp add: find_row_def find_None_iff)

text \<open>
  Claim C6. When no row has the key, \<^verbatim>\<open>delete\<close> returns \<^verbatim>\<open>False\<close> and the table
  and the key sequence of the store are what they were. When a row has the key, the
  first \<^verbatim>\<open>delete\<close> returns \<^verbatim>\<open>True\<close> and leaves the table without the rows of that
  key, and a second \<^verbatim>\<open>delete\<close> of the same key returns \<^verbatim>\<open>False\<close> and changes
  nothing in the table.
\<close>

theorem delete_idempotent:
  "(find_row (primary_key_attribute_name d) (Some k) (table w) = None \<longrightarrow>
      (\<exists>w1. delete d k w = (Inr False, w1) \<and> table w1 = table w \<and> sequence w1 = sequence w)) \<and>
   (find_row (primary_key_attribute_name d) (Some k) (table w) \<noteq> None \<longrightarrow>
      (\<exists>w1 w2. delete d k w = (Inr True, w1) \<and>
         table w1 = filter (\<lambda>t. t (primary_key_attribute_name d) \<noteq> Some k) (table w) \<and>
         find_row (primary_key_attribute_name d) (Some k) (table w1) = None \<and>
         delete d k w1 = (Inr False, w2) \<and> table w2 = table w1))"
proof (intro conjI impI)
  assume "find_row (primary_key_attribute_name d) (Some k) (table w) = None"
  then show "\<exists>w1. delete d k w = (Inr False, w1) \<and> table w1 = table w \<and> sequence w1 = sequence w"
    by (simp add: delete_absent)
next
  assume "find_row (primary_key_attribute_name d) (Some k) (table w) \<noteq> None"
  then obtain r where r: "find_row (primary_key_attribute_name d) (Some k) (table w) = Some r"
    by auto
  let ?w1 = "snd (delete d k w)"
  have 1: "delete d k w = (Inr True, ?w1)"
    and 2: "table ?w1 = filter (\<lambda>t. t (primary_key_attribute_name d) \<noteq> Some k) (table w)"
    by (simp_all add: delete_present [OF r])
  have 3: "find_row (primary_key_attribute_name d) (Some k) (table ?w1) = None"
    unfolding 2 by (rule find_row_filter_out)
  have 4: "delete d k ?w1 = (Inr False, snd (delete d k ?w1))"
    "table (snd (delete d k ?w1)) = table ?w1"
    by (simp_all add: delete_absent [OF 3])
  from 1 2 3 4 show "\<exists>w1 w2. delete d k w = (Inr True, w1) \<and>
         table w1 = filter (\<lambda>t. t (primary_key_attribute_name d) \<noteq> Some k) (table w) \<and>
         find_row (primary_key_attribute_name d) (Some k) (table w1) = None \<and>
         delete d k w1 = (Inr False, w2) \<and> table w2 = table w1"
    by blast
qed

theorem delete_idempotent_witness:
  "find_row (primary_key_attribute_name user_dao) (Some (VInt 2))
     (table (initial_world [user_row 1 ''ann''] (Some 8))) = None \<and>
   fst (delete user_dao (VInt 2) (initial_world [user_row 1 ''ann''] (Some 8))) = Inr False \<and>
   find_row (primary_key_attribute_name user_dao) (Some (VInt 1))
     (table (initial_world [user_row 1 ''ann''] (Some 8))) \<noteq> None \<and>
   fst (delete user_dao (VInt 1) (initial_world [user_row 1 ''ann''] (Some 8))) = Inr True \<and>
   fst (delete user_dao (VInt 1)
         (snd (delete user_dao (VInt 1) (initial_world [user_row 1 ''ann''] (Some 8))))) =
     Inr False"
proof -
  let ?w = "initial_world [user_row 1 ''ann''] (Some 8)"
  have a: "find_row (primary_key_attribute_name user_dao) (Some (VInt 2)) (table ?w) = None"
    by (simp add: user_dao_def initial_world_def find_row_def user_row_def)
  have p: "find_row (primary_key_attribute_name user_dao) (Some (VInt 1)) (table ?w) \<noteq> None"
    by (simp add: user_dao_def initial_world_def find_row_def user_row_def)
  from delete_idempotent [of user_dao "VInt 2" ?w] a
  have 1: "fst (delete user_dao (VInt 2) ?w) = Inr False" by auto
  from delete_idempotent [of user_dao "VInt 1" ?w] p
  have 2: "fst (delete user_dao (VInt 1) ?w) = Inr True"
    "fst (delete user_dao (VInt 1) (snd (delete user_dao (VInt 1) ?w))) = Inr False" by auto
  from a p 1 2 show ?thesis by blast
qed

section \<open>The background executor\<close>

lemma max_workers_value:
  "max 4 (cpu_count_or_1 w) = (case cpu_count w of None \<Rightarrow> 4 | Some n \<Rightarrow> max 4 n)"
  by (simp add: cpu_count_or_1_def split: option.splits)

lemma get_bg_executor_create:
  "class_getattr (bg_executor w) (mro d) = None \<Longrightarrow>
   get_bg_executor d w =
     (length (executors w),
      w\<lparr>executors := executors w @
           [\<lparr>max_workers = (case cpu_count w of None \<Rightarrow> 4 | Some n \<Rightarrow> max 4 n),
             thread_name_prefix = ''dao-bg''\<rparr>],
        bg_executor := (bg_executor w)(class_name d := Some (Some (length (executors w))))\<rparr>)"
  by (simp add: get_bg_executor_def max_workers_value Let_def)

lemma get_bg_executor_reuse:
  "class_getattr (bg_executor w) (mro d) = Some ex \<Longrightarrow> get_bg_executor d w = (ex, w)"
  by (simp add: get_bg_executor_def)

lemma get_bg_executor_prefix:
  "take (length (executors w)) (executors (snd (get_bg_executor d w))) = executors w"
  by (simp add: get_bg_executor_def Let_def split: option.splits)

lemma get_bg_executor_size:
  assumes none: "class_getattr (bg_executor w) (mro d) = None"
  shows "\<exists>w1. get_bg_executor d w = (length (executors w), w1) \<and>
        executors w1 = executors w @
          [\<lparr>max_workers = (case cpu_count w of None \<Rightarrow> 4 | Some n \<Rightarrow> max 4 n),
            thread_name_prefix = ''dao-bg''\<rparr>] \<and>
        4 \<le> max_workers (executors w1 ! length (executors w)) \<and>
        get_bg_executor d w1 = (length (executors w), w1)"
proof -
  let ?w1 = "snd (get_bg_executor d w)"
  have 1: "get_bg_executor d w = (length (executors w), ?w1)"
    by (simp add: get_bg_executor_create [OF none])
  have 2: "executors ?w1 = executors w @
          [\<lparr>max_workers = (case cpu_count w of None \<Rightarrow> 4 | Some n \<Rightarrow> max 4 n),
            thread_name_prefix = ''dao-bg''\<rparr>]"
    by (simp add: get_bg_executor_create [OF none])
  have 3: "4 \<le> max_workers (executors ?w1 ! length (executors w))"
    unfolding 2 by (simp split: option.splits)
  have "class_getattr (bg_executor ?w1) (mro d) = Some (length (executors w))"
    by (simp add: get_bg_executor_create [OF none] mro_def)
  then have 4: "get_bg_executor d ?w1 = (length (executors w), ?w1)"
    by (rule get_bg_executor_reuse)
  from 1 2 3 4 show ?thesis by blast
qed

text \<open>
  Claim C4, on the code: the assignment \<^verbatim>\<open>cls._bg_executor = ...\<close> stores the executor
  on the subclass the call came through, and a sibling subclass still reads the
  \<^verbatim>\<open>None\<close> of \<^verbatim>\<open>DataAccessObject\<close>. Two data-access objects of two subclasses that
  each submit one fire-and-forget operation, one after the other, get two executors.
\<close>

theorem executor_per_subclass:
  "(case delete_ff user_dao (VInt 1) (initial_world [] (Some 8)) of
      (f1, w1) \<Rightarrow>
        (case delete_ff order_dao (VInt 1) w1 of
           (f2, w2) \<Rightarrow>
             (future_executor f1, future_executor f2, length (executors w2)))) = (0, 1, 2)"
  by (simp add: delete_ff_def submit_background_def get_bg_executor_def mro_def user_dao_def
      order_dao_def base_class_def initial_world_def submit_def runner_def run_in_session_def
      get_session_def release_session_def delete_ff_write_def session_get_fresh find_row_def
      cpu_count_or_1_def Let_def)

section \<open>Sessions taken from the pool\<close>

lemma then_do_pool:
  assumes "pool_counts (snd (snd r)) = n"
    and "\<And>v s w. pool_counts w = n \<Longrightarrow> pool_counts (snd (snd (f v s w))) = n"
  shows "pool_counts (snd (snd (then_do r f))) = n"
proof (cases r)
  case (fields res s w)
  with assms show ?thesis by (cases res) simp_all
qed

lemma load_row_pool: "pool_counts (snd (snd (load_row d r s w))) = pool_counts w"
  by (simp add: load_row_def pool_counts_def split: option.splits prod.splits)

lemma load_rows_pool: "pool_counts (snd (snd (load_rows d rs s w))) = pool_counts w"
proof (induction rs arbitrary: s w)
  case Nil
  show ?case by simp
next
  case (Cons r rs)
  show ?case
    unfolding load_rows.simps
    by (rule then_do_pool, rule load_row_pool, rule then_do_pool) (simp_all add: Cons.IH)
qed

lemma session_get_pool: "pool_counts (snd (snd (session_get d k s w))) = pool_counts w"
  unfolding session_get_def
  by (auto split: option.splits intro!: then_do_pool simp: load_row_pool)

lemma session_add_pool: "pool_counts (snd (snd (session_add a s w))) = pool_counts w"
  by (simp add: session_add_def)

lemma session_delete_pool: "pool_counts (snd (snd (session_delete a s w))) = pool_counts w"
  by (simp add: session_delete_def split: option.splits)

lemma expunge_pool: "pool_counts (snd (snd (expunge a s w))) = pool_counts w"
  by (simp add: expunge_def)

lemma expunge_each_pool: "pool_counts (snd (snd (expunge_each as s w))) = pool_counts w"
proof (induction as arbitrary: s w)
  case Nil
  show ?case by simp
next
  case (Cons a as)
  show ?case
    unfolding expunge_each.simps
    by (rule then_do_pool, rule expunge_pool) (simp add: Cons.IH)
qed

lemma flush_dirty_pool:
  "flush_dirty pk im w = Inr (im', w') \<Longrightarrow> pool_counts w' = pool_counts w"
  by (induction pk im w arbitrary: im' w' rule: flush_dirty.induct)
    (auto simp: pool_counts_def split: option.splits if_splits sum.splits)

lemma flush_new_pool:
  "flush_new pk as w = Inr (im', w') \<Longrightarrow> pool_counts w' = pool_counts w"
  by (induction pk as w arbitrary: im' w' rule: flush_new.induct)
    (auto simp: pool_counts_def Let_def split: option.splits if_splits sum.splits)

lemma flush_pool: "pool_counts (snd (snd (flush d s w))) = pool_counts w"
  by (auto simp: flush_def pool_counts_def split: sum.splits
      dest!: flush_dirty_pool flush_new_pool)

lemma refresh_pool: "pool_counts (snd (snd (refresh d a s w))) = pool_counts w"
  by (simp add: refresh_def pool_counts_def split: option.splits)

lemma setattr_all_pool: "pool_counts (setattr_all a fs w) = pool_counts w"
  unfolding setattr_all_def
  by (induction fs arbitrary: w) (auto simp: setattr_def pool_counts_def)

lemma model_new_pool: "pool_counts (snd (model_new kw w)) = pool_counts w"
  by (simp add: model_new_def pool_counts_def)

lemmas pool_frames =
  load_row_pool load_rows_pool session_get_pool session_add_pool session_delete_pool
  expunge_pool expunge_each_pool flush_pool refresh_pool setattr_all_pool model_new_pool

lemma get_op_pool: "pool_counts (snd (snd (get_op d k s w))) = pool_counts w"
  unfolding get_op_def
  by (auto intro!: then_do_pool simp: pool_frames split: option.splits)

lemma query_all_pool: "pool_counts (snd (snd (query_all d q s w))) = pool_counts w"
  by (simp add: query_all_def load_rows_pool)

lemma query_first_pool: "pool_counts (snd (snd (query_first d q s w))) = pool_counts w"
  unfolding query_first_def
  by (auto intro!: then_do_pool simp: pool_frames split: list.splits)

lemma list_op_pool: "pool_counts (snd (snd (list_op d l off s w))) = pool_counts w"
  unfolding list_op_def
  by (auto intro!: then_do_pool simp: pool_frames query_all_pool)

lemma list_by_op_pool: "pool_counts (snd (snd (list_by_op d l off fs s w))) = pool_counts w"
  unfolding list_by_op_def
  by (auto intro!: then_do_pool simp: pool_frames query_all_pool)

lemma list_by_order_by_op_pool:
  "pool_counts (snd (snd (list_by_order_by_op d ob l off fs s w))) = pool_counts w"
  unfolding list_by_order_by_op_def
  by (auto intro!: then_do_pool simp: pool_frames query_all_pool)

lemma exists_op_pool: "pool_counts (snd (snd (exists_op d k s w))) = pool_counts w"
  unfolding exists_op_def
  by (auto intro!: then_do_pool simp: pool_frames query_first_pool split: option.splits)

lemma create_write_pool: "pool_counts (snd (snd (create_write d fs s w))) = pool_counts w"
proof -
  obtain a w0 where m: "model_new fs w = (a, w0)" by (cases "model_new fs w")
  then have "pool_counts w0 = pool_counts w" using model_new_pool [of fs w] by simp
  then show ?thesis
    unfolding create_write_def m
    by (auto intro!: then_do_pool simp: pool_frames)
qed

lemma create_ff_write_pool: "create_ff_write d fs s w = create_write d fs s w"
  by (simp add: create_ff_write_def create_write_def)

lemma update_write_pool: "pool_counts (snd (snd (update_write d k fs s w))) = pool_counts w"
  unfolding update_write_def
  by (auto intro!: then_do_pool simp: pool_frames split: option.splits)

lemma pool_counts_alloc:
  "pool_counts (w\<lparr>heap := h, next_addr := n\<rparr>) = pool_counts w"
  by (simp add: pool_counts_def)

lemma upsert_write_pool: "pool_counts (snd (snd (upsert_write d k fs s w))) = pool_counts w"
  unfolding upsert_write_def
  by (auto intro!: then_do_pool simp: pool_frames model_new_def pool_counts_alloc
      split: option.splits)

lemma delete_write_pool: "pool_counts (snd (snd (delete_write d k s w))) = pool_counts w"
  unfolding delete_write_def
  by (auto intro!: then_do_pool simp: pool_frames split: option.splits)

lemma delete_ff_write_eq: "delete_ff_write d k s w = delete_write d k s w"
  by (simp add: delete_ff_write_def delete_write_def)

lemma run_in_session_pool:
  assumes "\<And>s w. pool_counts (snd (snd (fn s w))) = pool_counts w"
  shows "pool_counts (snd (run_in_session d fn w)) = (Suc (acquired w), Suc (released w))"
proof -
  let ?s = "\<lparr>identity_map = [], pending = [], deleted = []\<rparr>"
  let ?w = "w\<lparr>acquired := Suc (acquired w)\<rparr>"
  from assms [of ?s ?w] show ?thesis
    by (cases "fn ?s ?w")
      (simp add: run_in_session_def get_session_def release_session_def pool_counts_def)
qed

lemma update_pool: "pool_counts (snd (update d k fs w)) = (Suc (acquired w), Suc (released w))"
  unfolding update_def by (rule run_in_session_pool) (rule update_write_pool)

lemma upsert_pool: "pool_counts (snd (upsert d k fs w)) = (Suc (acquired w), Suc (released w))"
  unfolding upsert_def by (rule run_in_session_pool) (rule upsert_write_pool)

lemma get_bg_executor_pool: "pool_counts (snd (get_bg_executor d w)) = pool_counts w"
  by (simp add: get_bg_executor_def pool_counts_def Let_def split: option.splits)

lemma runner_pool: "pool_counts (snd (runner d fn w)) = pool_counts (snd (run_in_session d fn w))"
  by (simp add: runner_def pool_counts_def logger_error_def print_line_def
      split: prod.splits sum.splits)

lemma submit_background_pool:
  "pool_counts (snd (submit_background d fn w)) =
   pool_counts (snd (run_in_session d fn (snd (get_bg_executor d w))))"
proof -
  obtain ex w1 where g: "get_bg_executor d w = (ex, w1)" by (cases "get_bg_executor d w")
  obtain r w2 where r: "runner d fn w1 = (r, w2)" by (cases "runner d fn w1")
  from runner_pool [of d fn w1] r g show ?thesis
    by (simp add: submit_background_def submit_def)
qed

lemma sync_operations_one_session:
  "pool_counts (snd (get d k w)) = (Suc (acquired w), Suc (released w))"
  "pool_counts (snd (list_dao d l off w)) = (Suc (acquired w), Suc (released w))"
  "pool_counts (snd (list_by d l off flt w)) = (Suc (acquired w), Suc (released w))"
  "pool_counts (snd (list_by_order_by d ob l off flt w)) = (Suc (acquired w), Suc (released w))"
  "pool_counts (snd (exists_dao d k w)) = (Suc (acquired w), Suc (released w))"
  "pool_counts (snd (create d fs w)) = (Suc (acquired w), Suc (released w))"
  "pool_counts (snd (update d k fs w)) = (Suc (acquired w), Suc (released w))"
  "pool_counts (snd (upsert d k fs w)) = (Suc (acquired w), Suc (released w))"
  "pool_counts (snd (delete d k w)) = (Suc (acquired w), Suc (released w))"
  unfolding get_def list_dao_def list_by_def list_by_order_by_def exists_dao_def create_def
    update_def upsert_def delete_def
  by (rule run_in_session_pool, 
      rule get_op_pool list_op_pool list_by_op_pool list_by_order_by_op_pool exists_op_pool
        create_write_pool update_write_pool upsert_write_pool delete_write_pool)+

lemma create_ff_delete_ff_one_session:
  "pool_counts (snd (create_ff d fs w)) = (Suc (acquired w), Suc (released w))"
  "pool_counts (snd (delete_ff d k w)) = (Suc (acquired w), Suc (released w))"
proof -
  have c: "pool_counts (snd (snd (create_ff_write d fs s' w'))) = pool_counts w'" for s' w'
    by (simp add: create_ff_write_pool create_write_pool)
  have e: "pool_counts (snd (snd (delete_ff_write d k s' w'))) = pool_counts w'" for s' w'
    by (simp add: delete_ff_write_eq delete_write_pool)
  have g: "acquired (snd (get_bg_executor d w)) = acquired w"
    "released (snd (get_bg_executor d w)) = released w"
    using get_bg_executor_pool [of d w] by (simp_all add: pool_counts_def)
  show "pool_counts (snd (create_ff d fs w)) = (Suc (acquired w), Suc (released w))"
    unfolding create_ff_def submit_background_pool
    using run_in_session_pool [of "create_ff_write d fs" d "snd (get_bg_executor d w)", OF c]
    by (simp add: g)
  show "pool_counts (snd (delete_ff d k w)) = (Suc (acquired w), Suc (released w))"
    unfolding delete_ff_def submit_background_pool
    using run_in_session_pool [of "delete_ff_write d k" d "snd (get_bg_executor d w)", OF e]
    by (simp add: g)
qed

lemma nested_call_pool:
  assumes "\<And>w1. pool_counts (snd (op w1)) = (Suc (acquired w1), Suc (released w1))"
  shows "pool_counts (snd (submit_background d
           (\<lambda>session w1. case op w1 of (r, w2) \<Rightarrow> (r, session, w2)) w)) =
         (Suc (Suc (acquired w)), Suc (Suc (released w)))"
proof -
  let ?w0 = "snd (get_bg_executor d w)"
  let ?w1 = "?w0\<lparr>acquired := Suc (acquired ?w0)\<rparr>"
  have g: "acquired ?w0 = acquired w" "released ?w0 = released w"
    using get_bg_executor_pool [of d w] by (simp_all add: pool_counts_def)
  from assms [of ?w1] have "acquired (snd (op ?w1)) = Suc (Suc (acquired w))"
    "released (snd (op ?w1)) = Suc (released w)"
    by (simp_all add: pool_counts_def g)
  then show ?thesis
    unfolding submit_background_pool
    by (cases "op ?w1")
      (simp add: run_in_session_def get_session_def release_session_def pool_counts_def)
qed

text \<open>
  Claim C1, on the code. Every synchronous method, \<^verbatim>\<open>create_ff\<close> and \<^verbatim>\<open>delete_ff\<close>
  take one session from the pool and give it back (the lemmas above). \<^verbatim>\<open>update_ff\<close>
  and \<^verbatim>\<open>upsert_ff\<close> take two: the runner opens one for the submitted function, and
  the function, which ignores it, calls \<^verbatim>\<open>update\<close> or \<^verbatim>\<open>upsert\<close>, which opens
  another inside the first.
\<close>

theorem update_ff_upsert_ff_two_sessions:
  "acquired (snd (update_ff d id_value fields' w)) = acquired w + 2 \<and>
   released (snd (update_ff d id_value fields' w)) = released w + 2 \<and>
   acquired (snd (upsert_ff d id_value fields' w)) = acquired w + 2 \<and>
   released (snd (upsert_ff d id_value fields' w)) = released w + 2"
proof -
  have "pool_counts (snd (update_ff d id_value fields' w)) =
        (Suc (Suc (acquired w)), Suc (Suc (released w)))"
    unfolding update_ff_def by (rule nested_call_pool) (rule update_pool)
  moreover have "pool_counts (snd (upsert_ff d id_value fields' w)) =
        (Suc (Suc (acquired w)), Suc (Suc (released w)))"
    unfolding upsert_ff_def by (rule nested_call_pool) (rule upsert_pool)
  ultimately show ?thesis by (simp add: pool_counts_def)
qed

section \<open>Executors constructed by submissions\<close>

lemma then_do_executors:
  assumes "executor_state (snd (snd r)) = n"
    and "\<And>v s w. executor_state w = n \<Longrightarrow> executor_state (snd (snd (f v s w))) = n"
  shows "executor_state (snd (snd (then_do r f))) = n"
proof (cases r)
  case (fields res s w)
  with assms show ?thesis by (cases res) simp_all
qed

lemma load_row_executors: "executor_state (snd (snd (load_row d r s w))) = executor_state w"
  by (simp add: load_row_def executor_state_def split: option.splits prod.splits)

lemma load_rows_executors: "executor_state (snd (snd (load_rows d rs s w))) = executor_state w"
proof (induction rs arbitrary: s w)
  case Nil
  show ?case by simp
next
  case (Cons r rs)
  show ?case
    unfolding load_rows.simps
    by (rule then_do_executors, rule load_row_executors, rule then_do_executors) (simp_all add: Cons.IH)
qed

lemma session_get_executors: "executor_state (snd (snd (session_get d k s w))) = executor_state w"
  unfolding session_get_def
  by (auto split: option.splits intro!: then_do_executors simp: load_row_executors)

lemma session_add_executors: "executor_state (snd (snd (session_add a s w))) = executor_state w"
  by (simp add: session_add_def)

lemma session_delete_executors: "executor_state (snd (snd (session_delete a s w))) = executor_state w"
  by (simp add: session_delete_def split: option.splits)

lemma expunge_executors: "executor_state (snd (snd (expunge a s w))) = executor_state w"
  by (simp add: expunge_def)

lemma expunge_each_executors: "executor_state (snd (snd (expunge_each as s w))) = executor_state w"
proof (induction as arbitrary: s w)
  case Nil
  show ?case by simp
next
  case (Cons a as)
  show ?case
    unfolding expunge_each.simps
    by (rule then_do_executors, rule expunge_executors) (simp add: Cons.IH)
qed

lemma flush_dirty_executors:
  "flush_dirty pk im w = Inr (im', w') \<Longrightarrow> executor_state w' = executor_state w"
  by (induction pk im w arbitrary: im' w' rule: flush_dirty.induct)
    (auto simp: executor_state_def split: option.splits if_splits sum.splits)

lemma flush_new_executors:
  "flush_new pk as w = Inr (im', w') \<Longrightarrow> executor_state w' = executor_state w"
  by (induction pk as w arbitrary: im' w' rule: flush_new.induct)
    (auto simp: executor_state_def Let_def split: option.splits if_splits sum.splits)

lemma flush_executors: "executor_state (snd (snd (flush d s w))) = executor_state w"
  by (auto simp: flush_def executor_state_def split: sum.splits
      dest!: flush_dirty_executors flush_new_executors)

lemma refresh_executors: "executor_state (snd (snd (refresh d a s w))) = executor_state w"
  by (simp add: refresh_def executor_state_def split: option.splits)

lemma setattr_all_executors: "executor_state (setattr_all a fs w) = executor_state w"
  unfolding setattr_all_def
  by (induction fs arbitrary: w) (auto simp: setattr_def executor_state_def)

lemma model_new_executors: "executor_state (snd (model_new kw w)) = executor_state w"
  by (simp add: model_new_def executor_state_def)

lemmas executor_frames =
  load_row_executors load_rows_executors session_get_executors session_add_executors session_delete_executors
  expunge_executors expunge_each_executors flush_executors refresh_executors setattr_all_executors model_new_executors

lemma get_op_executors: "executor_state (snd (snd (get_op d k s w))) = executor_state w"
  unfolding get_op_def
  by (auto intro!: then_do_executors simp: executor_frames split: option.splits)

lemma query_all_executors: "executor_state (snd (snd (query_all d q s w))) = executor_state w"
  by (simp add: query_all_def load_rows_executors)

lemma query_first_executors: "executor_state (snd (snd (query_first d q s w))) = executor_state w"
  unfolding query_first_def
  by (auto intro!: then_do_executors simp: executor_frames split: list.splits)

lemma list_op_executors: "executor_state (snd (snd (list_op d l off s w))) = executor_state w"
  unfolding list_op_def
  by (auto intro!: then_do_executors simp: executor_frames query_all_executors)

lemma list_by_op_executors: "executor_state (snd (snd (list_by_op d l off fs s w))) = executor_state w"
  unfolding list_by_op_def
  by (auto intro!: then_do_executors simp: executor_frames query_all_executors)

lemma list_by_order_by_op_executors:
  "executor_state (snd (snd (list_by_order_by_op d ob l off fs s w))) = executor_state w"
  unfolding list_by_order_by_op_def
  by (auto intro!: then_do_executors simp: executor_frames query_all_executors)

lemma exists_op_executors: "executor_state (snd (snd (exists_op d k s w))) = executor_state w"
  unfolding exists_op_def
  by (auto intro!: then_do_executors simp: executor_frames query_first_executors split: option.splits)

lemma create_write_executors: "executor_state (snd (snd (create_write d fs s w))) = executor_state w"
proof -
  obtain a w0 where m: "model_new fs w = (a, w0)" by (cases "model_new fs w")
  then have "executor_state w0 = executor_state w" using model_new_executors [of fs w] by simp
  then show ?thesis
    unfolding create_write_def m
    by (auto intro!: then_do_executors simp: executor_frames)
qed

lemma update_write_executors: "executor_state (snd (snd (update_write d k fs s w))) = executor_state w"
  unfolding update_write_def
  by (auto intro!: then_do_executors simp: executor_frames split: option.splits)

lemma executor_state_alloc:
  "executor_state (w\<lparr>heap := h, next_addr := n\<rparr>) = executor_state w"
  by (simp add: executor_state_def)

lemma upsert_write_executors: "executor_state (snd (snd (upsert_write d k fs s w))) = executor_state w"
  unfolding upsert_write_def
  by (auto intro!: then_do_executors simp: executor_frames model_new_def executor_state_alloc
      split: option.splits)

lemma delete_write_executors: "executor_state (snd (snd (delete_write d k s w))) = executor_state w"
  unfolding delete_write_def
  by (auto intro!: then_do_executors simp: executor_frames split: option.splits)

lemma run_in_session_executors:
  assumes "\<And>s w. executor_state (snd (snd (fn s w))) = executor_state w"
  shows "executor_state (snd (run_in_session d fn w)) = executor_state w"
proof -
  let ?s = "\<lparr>identity_map = [], pending = [], deleted = []\<rparr>"
  let ?w = "w\<lparr>acquired := Suc (acquired w)\<rparr>"
  from assms [of ?s ?w] show ?thesis
    by (cases "fn ?s ?w")
      (simp add: run_in_session_def get_session_def release_session_def executor_state_def)
qed

lemma runner_executors:
  "executor_state (snd (runner d fn w)) = executor_state (snd (run_in_session d fn w))"
  by (simp add: runner_def executor_state_def logger_error_def print_line_def
      split: prod.splits sum.splits)

lemma submit_background_executors:
  assumes "\<And>s w. executor_state (snd (snd (fn s w))) = executor_state w"
  shows "executor_state (snd (submit_background d fn w)) =
         executor_state (snd (get_bg_executor d w))"
    and "future_executor (fst (submit_background d fn w)) = fst (get_bg_executor d w)"
proof -
  obtain ex w1 where g: "get_bg_executor d w = (ex, w1)" by (cases "get_bg_executor d w")
  obtain r w2 where r: "runner d fn w1 = (r, w2)" by (cases "runner d fn w1")
  from runner_executors [of d fn w1] r g run_in_session_executors [of fn d w1, OF assms]
  show "executor_state (snd (submit_background d fn w)) =
        executor_state (snd (get_bg_executor d w))"
    by (simp add: submit_background_def submit_def)
  from r g show "future_executor (fst (submit_background d fn w)) = fst (get_bg_executor d w)"
    by (simp add: submit_background_def submit_def)
qed

lemma nested_call_executors:
  assumes "\<And>s w. executor_state (snd (snd (fn s w))) = executor_state w"
  shows "executor_state
           (snd (snd (case run_in_session d fn w1 of (r, w2) \<Rightarrow> (r, session, w2)))) =
         executor_state w1"
  using run_in_session_executors [of fn d w1, OF assms]
  by (cases "run_in_session d fn w1") simp

lemma submissions_executor_state:
  "executor_state (snd (create_ff d fs w)) = executor_state (snd (get_bg_executor d w))"
  "executor_state (snd (update_ff d k fs w)) = executor_state (snd (get_bg_executor d w))"
  "executor_state (snd (upsert_ff d k fs w)) = executor_state (snd (get_bg_executor d w))"
  "executor_state (snd (delete_ff d k w)) = executor_state (snd (get_bg_executor d w))"
  "future_executor (fst (create_ff d fs w)) = fst (get_bg_executor d w)"
  "future_executor (fst (update_ff d k fs w)) = fst (get_bg_executor d w)"
  "future_executor (fst (upsert_ff d k fs w)) = fst (get_bg_executor d w)"
  "future_executor (fst (delete_ff d k w)) = fst (get_bg_executor d w)"
  unfolding create_ff_def update_ff_def upsert_ff_def delete_ff_def update_def upsert_def
  by (rule submit_background_executors,
      (rule nested_call_executors)?,
      simp add: create_ff_write_pool delete_ff_write_eq create_write_executors
        update_write_executors upsert_write_executors delete_write_executors)+

lemma first_submission_creates:
  assumes "class_getattr (bg_executor w) (mro d) = None"
  shows "executors (snd (create_ff d fs w)) = executors w @
           [\<lparr>max_workers = (case cpu_count w of None \<Rightarrow> 4 | Some n \<Rightarrow> max 4 n),
             thread_name_prefix = ''dao-bg''\<rparr>]"
    and "executors (snd (update_ff d k fs w)) = executors w @
           [\<lparr>max_workers = (case cpu_count w of None \<Rightarrow> 4 | Some n \<Rightarrow> max 4 n),
             thread_name_prefix = ''dao-bg''\<rparr>]"
    and "executors (snd (upsert_ff d k fs w)) = executors w @
           [\<lparr>max_workers = (case cpu_count w of None \<Rightarrow> 4 | Some n \<Rightarrow> max 4 n),
             thread_name_prefix = ''dao-bg''\<rparr>]"
    and "executors (snd (delete_ff d k w)) = executors w @
           [\<lparr>max_workers = (case cpu_count w of None \<Rightarrow> 4 | Some n \<Rightarrow> max 4 n),
             thread_name_prefix = ''dao-bg''\<rparr>]"
  using submissions_executor_state(1-4) [where d = d and w = w]
  by (simp_all add: executor_state_def get_bg_executor_create [OF assms])

lemma later_submission_reuses:
  assumes "class_getattr (bg_executor w) (mro d) = Some ex"
  shows "executor_state (snd (create_ff d fs w)) = executor_state w"
    and "executor_state (snd (update_ff d k fs w)) = executor_state w"
    and "executor_state (snd (upsert_ff d k fs w)) = executor_state w"
    and "executor_state (snd (delete_ff d k w)) = executor_state w"
    and "future_executor (fst (create_ff d fs w)) = ex"
    and "future_executor (fst (update_ff d k fs w)) = ex"
    and "future_executor (fst (upsert_ff d k fs w)) = ex"
    and "future_executor (fst (delete_ff d k w)) = ex"
  by (simp_all add: submissions_executor_state get_bg_executor_reuse [OF assms])

text \<open>
  Claim C9, on the code. Every executor the code constructs has the larger of 4 and the
  host's processor count as its worker count, and no submission changes an executor that
  exists (the lemmas above). But an executor is constructed at the first submission made
  through each subclass, not at the first submission of the process: on a host of 8
  processors, \<^verbatim>\<open>create_ff\<close> on a \<^verbatim>\<open>UserDAO\<close> constructs the executor 0 with 8 workers,
  and a later \<^verbatim>\<open>upsert_ff\<close> on an \<^verbatim>\<open>OrderDAO\<close> constructs the executor 1 with 8
  more. The background workers of the process are 8 after the first submission and 16
  after the second: their number is not fixed once the first submission is made.
\<close>

theorem executor_created_after_first_submission:
  "(case create_ff user_dao [(''name'', Some (VStr ''ann''))] (initial_world [] (Some 8)) of
      (f1, w1) \<Rightarrow>
        (case upsert_ff order_dao (VInt 1) [(''total'', Some (VInt 5))] w1 of
           (f2, w2) \<Rightarrow>
             (map max_workers (executors (initial_world [] (Some 8))),
              map max_workers (executors w1), future_executor f1,
              map max_workers (executors w2), future_executor f2))) =
   ([], [8], 0, [8, 8], 1)"
proof -
  let ?w = "initial_world [] (Some 8)"
  let ?c = "create_ff user_dao [(''name'', Some (VStr ''ann''))] ?w"
  let ?u = "upsert_ff order_dao (VInt 1) [(''total'', Some (VInt 5))] (snd ?c)"
  have 0: "executors ?w = []" "cpu_count ?w = Some 8"
    by (simp_all add: initial_world_def)
  have n: "class_getattr (bg_executor ?w) (mro user_dao) = None"
    by (simp add: initial_world_def mro_def user_dao_def base_class_def)
  have "executor_state (snd ?c) = executor_state (snd (get_bg_executor user_dao ?w))"
    by (rule submissions_executor_state)
  then have 1: "executors (snd ?c) = [\<lparr>max_workers = 8, thread_name_prefix = ''dao-bg''\<rparr>]"
    and b: "bg_executor (snd ?c) = (bg_executor ?w)(class_name user_dao := Some (Some 0))"
    and c: "cpu_count (snd ?c) = Some 8"
    by (simp_all add: executor_state_def get_bg_executor_create [OF n] 0)
  have f1: "future_executor (fst ?c) = 0"
    by (simp add: submissions_executor_state get_bg_executor_create [OF n] 0)
  have m: "class_getattr (bg_executor (snd ?c)) (mro order_dao) = None"
    unfolding b by (simp add: initial_world_def mro_def user_dao_def order_dao_def base_class_def)
  have 2: "executors (snd ?u) =
           [\<lparr>max_workers = 8, thread_name_prefix = ''dao-bg''\<rparr>,
            \<lparr>max_workers = 8, thread_name_prefix = ''dao-bg''\<rparr>]"
    by (simp add: first_submission_creates(3) [OF m] 1 c)
  have f2: "future_executor (fst ?u) = 1"
    by (simp add: submissions_executor_state get_bg_executor_create [OF m] 1)
  from 0 1 2 f1 f2 show ?thesis
    by (simp add: case_prod_unfold)
qed

section \<open>Failures of background operations\<close>

text \<open>
  Claim C3. Let \<^verbatim>\<open>_submit_background\<close> take the executor \<open>ex\<close>, let the runner open
  the session \<open>s\<close>, and let the submitted function, run in that session, end with \<open>r\<close>.
  Then the future is the one of \<open>ex\<close> and resolves to \<open>r\<close>. When \<open>r\<close> is an exception,
  the runner has printed its message and logged one entry that carries the class name of
  the data-access object, as logger and as \<^verbatim>\<open>logger_name\<close>, and the exception itself;
  when \<open>r\<close> is a result, nothing is printed or logged.
\<close>

theorem submit_background_outcome:
  "get_bg_executor d w = (ex, w1) \<and> get_session w1 = (s, w2) \<and> fn s w2 = (r, s', w3) \<longrightarrow>
   (\<exists>w'. submit_background d fn w = (Future ex r, w') \<and>
      (case r of
         Inl e \<Rightarrow>
           logged w' = logged w3 @
             [\<lparr>le_logger = class_name d, le_message = ''Background DAO operation failed'',
               le_exception = e, le_logger_name = class_name d\<rparr>] \<and>
           stdout w' = stdout w3 @ [exn_msg e]
       | Inr v \<Rightarrow> logged w' = logged w3 \<and> stdout w' = stdout w3))"
  by (cases r)
    (simp_all add: submit_background_def submit_def runner_def run_in_session_def
      release_session_def logger_error_def print_line_def)

theorem submit_background_outcome_witness:
  "fst (create_ff user_dao [(''name'', Some (VStr ''bob''))]
         (initial_world [user_row 1 ''ann''] (Some 8))) =
     Future 0 (Inl (Exn ''IntegrityError'' ''duplicate key value violates unique constraint'')) \<and>
   logged (snd (create_ff user_dao [(''name'', Some (VStr ''bob''))]
                 (initial_world [user_row 1 ''ann''] (Some 8)))) =
     [\<lparr>le_logger = ''UserDAO'', le_message = ''Background DAO operation failed'',
       le_exception = Exn ''IntegrityError'' ''duplicate key value violates unique constraint'',
       le_logger_name = ''UserDAO''\<rparr>] \<and>
   fst (delete_ff user_dao (VInt 1) (initial_world [user_row 1 ''ann''] (Some 8))) =
     Future 0 (Inr True) \<and>
   logged (snd (delete_ff user_dao (VInt 1) (initial_world [user_row 1 ''ann''] (Some 8)))) = []"
proof -
  let ?w = "initial_world [user_row 1 ''ann''] (Some 8)"
  let ?w1 = "snd (get_bg_executor user_dao ?w)"
  let ?s = "\<lparr>identity_map = [], pending = [], deleted = []\<rparr>"
  let ?w2 = "?w1\<lparr>acquired := Suc (acquired ?w1)\<rparr>"
  let ?c = "create_ff_write user_dao [(''name'', Some (VStr ''bob''))]"
  let ?d = "delete_ff_write user_dao (VInt 1)"
  let ?e = "Exn ''IntegrityError'' ''duplicate key value violates unique constraint''"
  have ex: "get_bg_executor user_dao ?w = (0, ?w1)"
    by (simp add: get_bg_executor_def initial_world_def mro_def user_dao_def base_class_def Let_def)
  have se: "get_session ?w1 = (?s, ?w2)"
    by (simp add: get_session_def)
  have w2: "table ?w1 = [user_row 1 ''ann'']" "sequence ?w1 = 1" "logged ?w1 = []"
    by (simp_all add: get_bg_executor_def initial_world_def mro_def user_dao_def base_class_def
        Let_def)
  have pkn: "primary_key_attribute_name user_dao = ''id''" "class_name user_dao = ''UserDAO''"
    by (simp_all add: user_dao_def)
  have fc: "fst (?c ?s ?w2) = Inl ?e" and lc: "logged (snd (snd (?c ?s ?w2))) = []"
    by (simp_all add: create_ff_write_def model_new_def session_add_def flush_def Let_def w2
        assign_all_def pkn user_table_lookup)
  have c: "?c ?s ?w2 = (Inl ?e, fst (snd (?c ?s ?w2)), snd (snd (?c ?s ?w2)))"
    using fc by (rule io_collapse)
  have fd: "fst (?d ?s ?w2) = Inr True" and ld: "logged (snd (snd (?d ?s ?w2))) = []"
    by (simp_all add: delete_ff_write_def session_get_fresh session_delete_def flush_def
        flush_deleted_def w2 pkn user_table_lookup)
  have d: "?d ?s ?w2 = (Inr True, fst (snd (?d ?s ?w2)), snd (snd (?d ?s ?w2)))"
    using fd by (rule io_collapse)
  note F = submit_background_outcome [of user_dao ?w 0 ?w1 ?s ?w2 ?c "Inl ?e"
      "fst (snd (?c ?s ?w2))" "snd (snd (?c ?s ?w2))", THEN mp, OF conjI [OF ex conjI [OF se c]]]
  from F lc
  have 1: "fst (create_ff user_dao [(''name'', Some (VStr ''bob''))] ?w) = Future 0 (Inl ?e)"
    "logged (snd (create_ff user_dao [(''name'', Some (VStr ''bob''))] ?w)) =
     [\<lparr>le_logger = ''UserDAO'', le_message = ''Background DAO operation failed'',
       le_exception = ?e, le_logger_name = ''UserDAO''\<rparr>]"
    by (auto simp: create_ff_def pkn)
  note G = submit_background_outcome [of user_dao ?w 0 ?w1 ?s ?w2 ?d "Inr True"
      "fst (snd (?d ?s ?w2))" "snd (snd (?d ?s ?w2))", THEN mp, OF conjI [OF ex conjI [OF se d]]]
  from G ld
  have 2: "fst (delete_ff user_dao (VInt 1) ?w) = Future 0 (Inr True)"
    "logged (snd (delete_ff user_dao (VInt 1) ?w)) = []"
    by (auto simp: delete_ff_def)
  from 1 2 show ?thesis by blast
qed

section \<open>Upsert\<close>

lemma assign_all_conv:
  "assign_all items base n = (case map_of (rev items) n of Some x \<Rightarrow> x | None \<Rightarrow> base n)"
  unfolding assign_all_def
  by (induction items arbitrary: base) (auto simp: map_add_def split: option.splits)

lemma map_of_dict_update: "map_of (dict_update d items) = map_of d ++ map_of (rev items)"
  unfolding dict_update_def
proof (induction items arbitrary: d)
  case Nil
  show ?case by simp
next
  case (Cons p items)
  obtain key v where p: "p = (key, v)" by (cases p)
  show ?case
    by (simp add: p Cons.IH AList.update_conv' fun_eq_iff map_add_def split: option.splits)
qed

lemma distinct_dict_update:
  "distinct (map fst d) \<Longrightarrow> distinct (map fst (dict_update d items))"
  unfolding dict_update_def
  by (induction items arbitrary: d) (auto simp: AList.distinct_update)

lemma map_of_rev_distinct: "distinct (map fst xs) \<Longrightarrow> map_of (rev xs) = map_of xs"
proof (induction xs)
  case Nil
  show ?case by simp
next
  case (Cons p xs)
  obtain key v where p: "p = (key, v)" by (cases p)
  from Cons.prems have n: "map_of xs key = None"
    by (simp add: p map_of_eq_None_iff)
  from Cons have ih: "map_of (rev xs) = map_of xs" by simp
  show ?case
    using n by (auto simp: p ih fun_eq_iff map_add_def split: option.splits)
qed

lemma new_row_conv:
  "assign_all (dict_update [(pk, Some k)] items) (\<lambda>_. None) n =
   (case map_of (rev items) n of Some x \<Rightarrow> x | None \<Rightarrow> if n = pk then Some k else None)"
proof -
  have d: "distinct (map fst (dict_update [(pk, Some k)] items))"
    by (rule distinct_dict_update) simp
  show ?thesis
    by (simp add: assign_all_conv map_of_rev_distinct [OF d] map_of_dict_update map_add_def
        split: option.splits)
qed

lemma setattr_all_conv:
  "setattr_all a items w = w\<lparr>heap := (heap w)(a := assign_all items (heap w a))\<rparr>"
  unfolding setattr_all_def assign_all_def
  by (induction items arbitrary: w) (auto simp: setattr_def)

lemma find_row_append:
  "find_row pk key (rows @ [r]) =
   (case find_row pk key rows of None \<Rightarrow> if r pk = key then Some r else None | Some x \<Rightarrow> Some x)"
  unfolding find_row_def by (induction rows) auto

lemma upsert_insert:
  assumes "find_row (primary_key_attribute_name d) (Some k) (table w) = None"
    and "r = assign_all (dict_update [(primary_key_attribute_name d, Some k)] items) (\<lambda>_. None)"
    and "r (primary_key_attribute_name d) = Some v"
    and "find_row (primary_key_attribute_name d) (Some v) (table w) = None"
  shows "upsert d k items w =
     (Inr (next_addr w),
      w\<lparr>heap := (heap w)(next_addr w := r), next_addr := Suc (next_addr w),
        table := table w @ [r],
        acquired := Suc (acquired w), released := Suc (released w)\<rparr>)"
  using assms
  by (simp add: upsert_def run_in_session_def get_session_def upsert_write_def session_get_fresh
      release_session_def model_new_def session_add_def flush_def flush_deleted_def Let_def
      refresh_def find_row_append expunge_def in_session_def fun_upd_idem)

lemma upsert_insert_rejected:
  assumes "find_row (primary_key_attribute_name d) (Some k) (table w) = None"
    and "r = assign_all (dict_update [(primary_key_attribute_name d, Some k)] items) (\<lambda>_. None)"
    and "r (primary_key_attribute_name d) = Some v"
    and "find_row (primary_key_attribute_name d) (Some v) (table w) = Some x"
  shows "upsert d k items w =
     (Inl (Exn ''IntegrityError'' ''duplicate key value violates unique constraint''),
      w\<lparr>heap := (heap w)(next_addr w := r), next_addr := Suc (next_addr w),
        acquired := Suc (acquired w), released := Suc (released w)\<rparr>)"
  using assms
  by (simp add: upsert_def run_in_session_def get_session_def upsert_write_def session_get_fresh
      release_session_def model_new_def session_add_def flush_def flush_deleted_def Let_def)

lemma find_row_filter:
  "find_row pk key (filter (\<lambda>t. t pk \<noteq> key') rows) =
   (if key = key' then None else find_row pk key rows)"
  unfolding find_row_def by (induction rows) auto

lemma find_row_moved:
  "r pk = Some v \<Longrightarrow> v = k \<or> find_row pk (Some v) rows = None \<Longrightarrow>
   find_row pk (Some v) (filter (\<lambda>t. t pk \<noteq> Some k) rows @ [r]) = Some r"
  by (auto simp: find_row_append find_row_filter)

lemma upsert_insert_generated:
  assumes "find_row (primary_key_attribute_name d) (Some k) (table w) = None"
    and "r = assign_all (dict_update [(primary_key_attribute_name d, Some k)] items) (\<lambda>_. None)"
    and "r (primary_key_attribute_name d) = None"
    and "find_row (primary_key_attribute_name d) (Some (VInt (sequence w))) (table w) = None"
  shows "upsert d k items w =
     (Inr (next_addr w),
      w\<lparr>heap := (heap w)
           (next_addr w := r(primary_key_attribute_name d := Some (VInt (sequence w)))),
        next_addr := Suc (next_addr w),
        table := table w @ [r(primary_key_attribute_name d := Some (VInt (sequence w)))],
        sequence := sequence w + 1,
        acquired := Suc (acquired w), released := Suc (released w)\<rparr>)"
  using assms
  by (simp add: upsert_def run_in_session_def get_session_def upsert_write_def session_get_fresh
      release_session_def model_new_def session_add_def flush_def flush_deleted_def Let_def
      refresh_def find_row_append expunge_def in_session_def)

lemma upsert_insert_generated_rejected:
  assumes "find_row (primary_key_attribute_name d) (Some k) (table w) = None"
    and "r = assign_all (dict_update [(primary_key_attribute_name d, Some k)] items) (\<lambda>_. None)"
    and "r (primary_key_attribute_name d) = None"
    and "find_row (primary_key_attribute_name d) (Some (VInt (sequence w))) (table w) = Some x"
  shows "upsert d k items w =
     (Inl (Exn ''IntegrityError'' ''duplicate key value violates unique constraint''),
      w\<lparr>heap := (heap w)(next_addr w := r), next_addr := Suc (next_addr w),
        sequence := sequence w + 1,
        acquired := Suc (acquired w), released := Suc (released w)\<rparr>)"
  using assms
  by (simp add: upsert_def run_in_session_def get_session_def upsert_write_def session_get_fresh
      release_session_def model_new_def session_add_def flush_def flush_deleted_def Let_def)




lemma update_present:
  assumes "find_row (primary_key_attribute_name d) (Some k) (table w) = Some old"
    and "r = assign_all items old"
    and "r (primary_key_attribute_name d) = Some v"
    and "v = k \<or> find_row (primary_key_attribute_name d) (Some v) (table w) = None"
  shows "update d k items w =
     (Inr (Some (next_addr w)),
      w\<lparr>heap := (heap w)(next_addr w := r), next_addr := Suc (next_addr w),
        table := (if r = old then table w
                  else filter (\<lambda>t. t (primary_key_attribute_name d) \<noteq> Some k) (table w) @ [r]),
        acquired := Suc (acquired w), released := Suc (released w)\<rparr>)"
proof (cases "r = old")
  case True
  with assms show ?thesis
    by (simp add: update_def run_in_session_def get_session_def update_write_def
        session_get_fresh release_session_def flush_def flush_deleted_def setattr_all_conv
        refresh_def expunge_def in_session_def)
next
  case False
  have f: "find_row (primary_key_attribute_name d) (Some v)
             (filter (\<lambda>t. t (primary_key_attribute_name d) \<noteq> Some k) (table w) @ [r]) = Some r"
    using assms(3,4) by (rule find_row_moved)
  from False assms f show ?thesis
    by (auto simp add: update_def run_in_session_def get_session_def update_write_def
        session_get_fresh release_session_def flush_def flush_deleted_def setattr_all_conv
        refresh_def expunge_def in_session_def)
qed


lemma find_row_Nil: "find_row pk key [] = None"
  by (simp add: find_row_def)

lemma user_table_lookup_Cons:
  "find_row ''id'' (Some (VInt i)) (user_row j n # rows) =
   (if i = j then Some (user_row j n) else find_row ''id'' (Some (VInt i)) rows)"
  by (simp add: find_row_def user_row_def)

lemma user_row_fields:
  "user_row i n ''id'' = Some (VInt i)" "user_row i n ''name'' = Some (VStr n)"
  by (simp_all add: user_row_def)



text \<open>
  Claim C10, as amended. On the insert path (no row has the key \<open>k\<close>), when the fields,
  a dictionary with distinct names, hold the entry \<open>(pk, v)\<close> for the primary-key
  attribute, the record \<^verbatim>\<open>upsert\<close> constructs has \<open>v\<close>, not \<open>k\<close>, as its primary key.
  If \<open>v\<close> is a value that no row has, the new instance and the inserted row carry it,
  and no row has \<open>k\<close> afterwards unless \<open>v\<close> is \<open>k\<close>. If \<open>v\<close> is a value that a row
  has, the insert is rejected with an \<^verbatim>\<open>IntegrityError\<close> and the table stays as it
  was. If \<open>v\<close> is \<^verbatim>\<open>None\<close>, the same holds of the key that the store generates.
\<close>

theorem upsert_key_override:
  assumes pk: "pk = primary_key_attribute_name d"
    and absent: "find_row pk (Some k) (table w) = None"
    and keys: "distinct (map fst fields')"
    and entry: "(pk, v) \<in> set fields'"
  shows "assign_all (dict_update [(pk, Some k)] fields') (\<lambda>_. None) pk = v \<and>
         (case v of
            Some x \<Rightarrow>
              if find_row pk (Some x) (table w) = None
              then \<exists>w'. upsert d k fields' w = (Inr (next_addr w), w') \<and>
                     heap w' (next_addr w) pk = Some x \<and>
                     length (table w') = Suc (length (table w)) \<and>
                     find_row pk (Some x) (table w') = Some (heap w' (next_addr w)) \<and>
                     (x = k \<or> find_row pk (Some k) (table w') = None)
              else \<exists>w'. upsert d k fields' w =
                     (Inl (Exn ''IntegrityError''
                             ''duplicate key value violates unique constraint''), w') \<and>
                     table w' = table w
          | None \<Rightarrow>
              if find_row pk (Some (VInt (sequence w))) (table w) = None
              then \<exists>w'. upsert d k fields' w = (Inr (next_addr w), w') \<and>
                     heap w' (next_addr w) pk = Some (VInt (sequence w)) \<and>
                     length (table w') = Suc (length (table w)) \<and>
                     find_row pk (Some (VInt (sequence w))) (table w') =
                       Some (heap w' (next_addr w)) \<and>
                     (VInt (sequence w) = k \<or> find_row pk (Some k) (table w') = None)
              else \<exists>w'. upsert d k fields' w =
                     (Inl (Exn ''IntegrityError''
                             ''duplicate key value violates unique constraint''), w') \<and>
                     table w' = table w)"
proof -
  let ?r = "assign_all (dict_update [(primary_key_attribute_name d, Some k)] fields') (\<lambda>_. None)"
  from keys entry have "map_of fields' pk = Some v" by simp
  with keys have "map_of (rev fields') pk = Some v"
    by (simp add: map_of_rev_distinct)
  then have v: "?r (primary_key_attribute_name d) = v"
    by (simp add: new_row_conv pk)
  have a: "find_row (primary_key_attribute_name d) (Some k) (table w) = None"
    using absent by (simp add: pk)
  have "case v of
          Some x \<Rightarrow>
            if find_row pk (Some x) (table w) = None
            then \<exists>w'. upsert d k fields' w = (Inr (next_addr w), w') \<and>
                   heap w' (next_addr w) pk = Some x \<and>
                   length (table w') = Suc (length (table w)) \<and>
                   find_row pk (Some x) (table w') = Some (heap w' (next_addr w)) \<and>
                   (x = k \<or> find_row pk (Some k) (table w') = None)
            else \<exists>w'. upsert d k fields' w =
                   (Inl (Exn ''IntegrityError''
                           ''duplicate key value violates unique constraint''), w') \<and>
                   table w' = table w
        | None \<Rightarrow>
            if find_row pk (Some (VInt (sequence w))) (table w) = None
            then \<exists>w'. upsert d k fields' w = (Inr (next_addr w), w') \<and>
                   heap w' (next_addr w) pk = Some (VInt (sequence w)) \<and>
                   length (table w') = Suc (length (table w)) \<and>
                   find_row pk (Some (VInt (sequence w))) (table w') =
                     Some (heap w' (next_addr w)) \<and>
                   (VInt (sequence w) = k \<or> find_row pk (Some k) (table w') = None)
            else \<exists>w'. upsert d k fields' w =
                   (Inl (Exn ''IntegrityError''
                           ''duplicate key value violates unique constraint''), w') \<and>
                   table w' = table w"
  proof (cases v)
    case None
    with v have null: "?r (primary_key_attribute_name d) = None" by simp
    show ?thesis
    proof (cases "find_row (primary_key_attribute_name d) (Some (VInt (sequence w))) (table w)")
      case None
      from upsert_insert_generated [OF a refl null None] a None \<open>v = None\<close>
      show ?thesis
        by (auto simp: pk find_row_append)
    next
      case (Some y)
      from upsert_insert_generated_rejected [OF a refl null Some] Some \<open>v = None\<close>
      show ?thesis
        by (simp add: pk)
    qed
  next
    case (Some x)
    with v have key: "?r (primary_key_attribute_name d) = Some x" by simp
    show ?thesis
    proof (cases "find_row (primary_key_attribute_name d) (Some x) (table w)")
      case None
      from upsert_insert [OF a refl key None] a None key \<open>v = Some x\<close>
      show ?thesis
        by (auto simp: pk find_row_append)
    next
      case (Some y)
      from upsert_insert_rejected [OF a refl key Some] Some \<open>v = Some x\<close>
      show ?thesis
        by (simp add: pk)
    qed
  qed
  with v show ?thesis by (simp add: pk)
qed

theorem upsert_key_override_witness:
  "(\<exists>w'. upsert user_dao (VInt 3) [(''id'', Some (VInt 5)), (''name'', Some (VStr ''eve''))]
           (initial_world [user_row 1 ''ann''] (Some 8)) = (Inr 0, w') \<and>
         heap w' 0 ''id'' = Some (VInt 5) \<and>
         find_row ''id'' (Some (VInt 3)) (table w') = None) \<and>
   (\<exists>w'. upsert user_dao (VInt 3) [(''id'', Some (VInt 1))]
           (initial_world [user_row 1 ''ann''] (Some 8)) =
           (Inl (Exn ''IntegrityError'' ''duplicate key value violates unique constraint''), w') \<and>
         table w' = [user_row 1 ''ann'']) \<and>
   (\<exists>w'. upsert user_dao (VInt 3) [(''name'', Some (VStr ''eve'')), (''id'', None)]
           (initial_world [user_row 2 ''bob''] (Some 8)) = (Inr 0, w') \<and>
         heap w' 0 ''id'' = Some (VInt 1) \<and>
         find_row ''id'' (Some (VInt 3)) (table w') = None)"
proof -
  let ?w = "initial_world [user_row 1 ''ann''] (Some 8)"
  let ?u = "initial_world [user_row 2 ''bob''] (Some 8)"
  have pk: "''id'' = primary_key_attribute_name user_dao"
    by (simp add: user_dao_def)
  have t: "table ?w = [user_row 1 ''ann'']" "next_addr ?w = 0" "sequence ?w = 1"
    "table ?u = [user_row 2 ''bob'']" "next_addr ?u = 0" "sequence ?u = 1"
    by (simp_all add: initial_world_def)
  note ev = t user_table_lookup_Cons find_row_Nil user_row_fields
  have a: "find_row ''id'' (Some (VInt 3)) (table ?w) = None"
    "find_row ''id'' (Some (VInt 3)) (table ?u) = None"
    by (simp_all add: ev)
  have d5: "distinct (map fst [(''id'', Some (VInt 5)), (''name'', Some (VStr ''eve''))])"
    and e5: "(''id'', Some (VInt 5)) \<in> set [(''id'', Some (VInt 5)), (''name'', Some (VStr ''eve''))]"
    and d1: "distinct (map fst [(''id'', Some (VInt 1))])"
    and e1: "(''id'', Some (VInt 1)) \<in> set [(''id'', Some (VInt 1))]"
    and dn: "distinct (map fst [(''name'', Some (VStr ''eve'')), (''id'', None)])"
    and en: "(''id'', None) \<in> set [(''name'', Some (VStr ''eve'')), (''id'', None)]"
    by simp_all
  from upsert_key_override [OF pk a(1) d5 e5]
  have A: "\<exists>w'. upsert user_dao (VInt 3) [(''id'', Some (VInt 5)), (''name'', Some (VStr ''eve''))] ?w =
             (Inr 0, w') \<and>
           heap w' 0 ''id'' = Some (VInt 5) \<and>
           find_row ''id'' (Some (VInt 3)) (table w') = None"
    by (auto simp: ev)
  from upsert_key_override [OF pk a(1) d1 e1]
  have B: "\<exists>w'. upsert user_dao (VInt 3) [(''id'', Some (VInt 1))] ?w =
           (Inl (Exn ''IntegrityError'' ''duplicate key value violates unique constraint''), w') \<and>
         table w' = [user_row 1 ''ann'']"
    by (auto simp: ev)
  from upsert_key_override [OF pk a(2) dn en]
  have C: "\<exists>w'. upsert user_dao (VInt 3) [(''name'', Some (VStr ''eve'')), (''id'', None)] ?u =
             (Inr 0, w') \<and>
           heap w' 0 ''id'' = Some (VInt 1) \<and>
           find_row ''id'' (Some (VInt 3)) (table w') = None"
    by (auto simp: ev)
  from A B C show ?thesis by blast
qed

text \<open>
  Claim C10 as stated fails where the entry is \<^verbatim>\<open>None\<close> and where it is the key of a
  row. \<^verbatim>\<open>upsert(3, id=None)\<close> inserts a row whose primary key is 1, the key that the
  store generated: neither \<^verbatim>\<open>None\<close> nor 3. \<^verbatim>\<open>upsert(4, id=2)\<close>, with a row of key 2,
  inserts no row at all.
\<close>

theorem upsert_key_generated_counterexample:
  "fst (upsert user_dao (VInt 3) [(''id'', None)] (initial_world [user_row 2 ''bob''] (Some 8))) =
     Inr 0 \<and>
   heap (snd (upsert user_dao (VInt 3) [(''id'', None)]
                (initial_world [user_row 2 ''bob''] (Some 8)))) 0 ''id'' = Some (VInt 1) \<and>
   set (map (\<lambda>t. t ''id'')
     (table (snd (upsert user_dao (VInt 3) [(''id'', None)]
                    (initial_world [user_row 2 ''bob''] (Some 8)))))) =
     {Some (VInt 1), Some (VInt 2)} \<and>
   fst (upsert user_dao (VInt 4) [(''id'', Some (VInt 2))]
         (initial_world [user_row 2 ''bob''] (Some 8))) =
     Inl (Exn ''IntegrityError'' ''duplicate key value violates unique constraint'') \<and>
   table (snd (upsert user_dao (VInt 4) [(''id'', Some (VInt 2))]
                 (initial_world [user_row 2 ''bob''] (Some 8)))) = [user_row 2 ''bob'']"
proof -
  let ?w = "initial_world [user_row 2 ''bob''] (Some 8)"
  have t: "table ?w = [user_row 2 ''bob'']" "next_addr ?w = 0" "sequence ?w = 1"
    by (simp_all add: initial_world_def)
  have pkn: "primary_key_attribute_name user_dao = ''id''"
    by (simp add: user_dao_def)
  have 1: "find_row (primary_key_attribute_name user_dao) (Some (VInt 3)) (table ?w) = None"
    by (simp add: pkn t user_table_lookup)
  have 4: "assign_all (dict_update [(primary_key_attribute_name user_dao, Some (VInt 3))]
             [(''id'', None)]) (\<lambda>_. None) (primary_key_attribute_name user_dao) = None"
    by (simp add: new_row_conv pkn)
  have 5: "find_row (primary_key_attribute_name user_dao) (Some (VInt (sequence ?w))) (table ?w) =
           None"
    by (simp add: pkn t user_table_lookup)
  have 6: "find_row (primary_key_attribute_name user_dao) (Some (VInt 4)) (table ?w) = None"
    by (simp add: pkn t user_table_lookup)
  have 7: "assign_all (dict_update [(primary_key_attribute_name user_dao, Some (VInt 4))]
             [(''id'', Some (VInt 2))]) (\<lambda>_. None) (primary_key_attribute_name user_dao) =
           Some (VInt 2)"
    by (simp add: new_row_conv pkn)
  have 8: "find_row (primary_key_attribute_name user_dao) (Some (VInt 2)) (table ?w) =
           Some (user_row 2 ''bob'')"
    by (simp add: pkn t user_table_lookup)
  have A: "fst (upsert user_dao (VInt 3) [(''id'', None)] ?w) = Inr 0"
    "heap (snd (upsert user_dao (VInt 3) [(''id'', None)] ?w)) 0 ''id'' = Some (VInt 1)"
    "set (map (\<lambda>t. t ''id'') (table (snd (upsert user_dao (VInt 3) [(''id'', None)] ?w)))) =
       {Some (VInt 1), Some (VInt 2)}"
    by (auto simp add: upsert_insert_generated [OF 1 refl 4 5] t pkn user_row_fields)
  have B: "fst (upsert user_dao (VInt 4) [(''id'', Some (VInt 2))] ?w) =
             Inl (Exn ''IntegrityError'' ''duplicate key value violates unique constraint'')"
    "table (snd (upsert user_dao (VInt 4) [(''id'', Some (VInt 2))] ?w)) = [user_row 2 ''bob'']"
    by (simp_all add: upsert_insert_rejected [OF 6 refl 7 8] t)
  from A B show ?thesis by blast
qed

section \<open>The primary keys of the table stay distinct\<close>

text \<open>
  Only \<^verbatim>\<open>flush\<close> writes to the table, and it rejects a key that another row has; so
  every synchronous operation leaves the keys distinct when it found them so.
\<close>

lemma then_do_keys:
  assumes "keys_distinct d (snd (snd r))"
    and "\<And>v s w. keys_distinct d w \<Longrightarrow> keys_distinct d (snd (snd (f v s w)))"
  shows "keys_distinct d (snd (snd (then_do r f)))"
proof (cases r)
  case (fields res s w)
  with assms show ?thesis by (cases res) simp_all
qed

lemma keys_distinct_table: "table w' = table w \<Longrightarrow> keys_distinct d w' = keys_distinct d w"
  by (simp add: keys_distinct_def)

lemma load_row_table: "table (snd (snd (load_row d r s w))) = table w"
  by (simp add: load_row_def split: option.splits prod.splits)

lemma load_rows_table: "table (snd (snd (load_rows d rs s w))) = table w"
proof (induction rs arbitrary: s w)
  case Nil
  show ?case by simp
next
  case (Cons r rs)
  obtain res s1 w1 where l: "load_row d r s w = (res, s1, w1)" by (cases "load_row d r s w")
  with load_row_table [of d r s w] have t: "table w1 = table w" by simp
  show ?case
  proof (cases res)
    case (Inl e)
    with l t show ?thesis by simp
  next
    case (Inr a)
    obtain res2 s2 w2 where m: "load_rows d rs s1 w1 = (res2, s2, w2)"
      by (cases "load_rows d rs s1 w1")
    with Cons.IH [of s1 w1] t have "table w2 = table w" by simp
    with l m Inr show ?thesis by (cases res2) simp_all
  qed
qed

lemma flush_dirty_keys:
  "flush_dirty pk im w = Inr (im', w') \<Longrightarrow> distinct (map (\<lambda>t. t pk) (table w)) \<Longrightarrow>
   distinct (map (\<lambda>t. t pk) (table w'))"
proof (induction pk im w arbitrary: im' w' rule: flush_dirty.induct)
  case (1 pk w)
  then show ?case by simp
next
  case (2 pk a key rest w)
  from "2.prems"(1) obtain old where old: "find_row pk key (table w) = Some old"
    by (auto split: option.splits)
  show ?case
  proof (cases "old = heap w a")
    case True
    with "2.prems"(1) old have rec: "flush_dirty pk rest w = Inr (tl im', w')"
      by (auto split: sum.splits)
    from "2.IH"(1) [OF old True rec "2.prems"(2)] show ?thesis .
  next
    case False
    with "2.prems"(1) old obtain v where v: "heap w a pk = Some v"
      by (auto split: option.splits)
    let ?w1 = "w\<lparr>table := filter (\<lambda>t. t pk \<noteq> key) (table w) @ [heap w a]\<rparr>"
    from "2.prems"(1) old False v
    have ok: "Some v = key \<or> find_row pk (Some v) (table w) = None"
      and rec: "flush_dirty pk rest ?w1 = Inr (tl im', w')"
      by (auto split: if_splits sum.splits)
    from ok have "Some v \<notin> (\<lambda>t. t pk) ` {t \<in> set (table w). t pk \<noteq> key}"
      by (auto simp: find_row_def find_None_iff)
    with "2.prems"(2) v have "distinct (map (\<lambda>t. t pk) (table ?w1))"
      by (simp add: distinct_map_filter)
    with "2.IH"(2) [OF old False v ok rec] show ?thesis .
  qed
qed

lemma flush_new_keys:
  "flush_new pk as w = Inr (im', w') \<Longrightarrow> distinct (map (\<lambda>t. t pk) (table w)) \<Longrightarrow>
   distinct (map (\<lambda>t. t pk) (table w'))"
proof (induction pk as w arbitrary: im' w' rule: flush_new.induct)
  case (1 pk w)
  then show ?case by simp
next
  case (2 pk a rest w)
  let ?key = "case heap w a pk of None \<Rightarrow> VInt (sequence w) | Some v \<Rightarrow> v"
  let ?seq = "case heap w a pk of None \<Rightarrow> sequence w + 1 | Some v \<Rightarrow> sequence w"
  let ?r = "(heap w a)(pk := Some ?key)"
  let ?w1 = "w\<lparr>heap := (heap w)(a := ?r), table := table w @ [?r], sequence := ?seq\<rparr>"
  from "2.prems"(1) have free: "find_row pk (Some ?key) (table w) = None"
    and rec: "flush_new pk rest ?w1 = Inr (tl im', w')"
    by (auto simp: Let_def split: if_splits sum.splits)
  from free have "Some ?key \<notin> set (map (\<lambda>t. t pk) (table w))"
    by (auto simp: find_row_def find_None_iff)
  with "2.prems"(2) have "distinct (map (\<lambda>t. t pk) (table ?w1))"
    by simp
  with "2.IH" [OF refl refl refl free rec] show ?case .
qed

lemma flush_deleted_keys:
  "distinct (map (\<lambda>t. t pk) rows) \<Longrightarrow> distinct (map (\<lambda>t. t pk) (flush_deleted pk dels rows))"
  unfolding flush_deleted_def
  by (induction dels arbitrary: rows) (auto simp: distinct_map_filter)

lemma flush_keys: "keys_distinct d w \<Longrightarrow> keys_distinct d (snd (snd (flush d s w)))"
  by (auto simp: flush_def keys_distinct_def flush_deleted_keys split: sum.splits
      dest: flush_dirty_keys flush_new_keys)

lemma load_row_keys: "keys_distinct d w \<Longrightarrow> keys_distinct d (snd (snd (load_row d r s w)))"
  by (simp add: keys_distinct_table [OF load_row_table])

lemma load_rows_keys: "keys_distinct d w \<Longrightarrow> keys_distinct d (snd (snd (load_rows d rs s w)))"
  by (simp add: keys_distinct_table [OF load_rows_table])

lemma session_get_keys:
  "keys_distinct d w \<Longrightarrow> keys_distinct d (snd (snd (session_get d k s w)))"
  unfolding session_get_def
  by (auto split: option.splits intro!: then_do_keys simp: load_row_keys)

lemma session_add_keys: "keys_distinct d w \<Longrightarrow> keys_distinct d (snd (snd (session_add a s w)))"
  by (simp add: session_add_def)

lemma session_delete_keys:
  "keys_distinct d w \<Longrightarrow> keys_distinct d (snd (snd (session_delete a s w)))"
  by (simp add: session_delete_def split: option.splits)

lemma expunge_keys: "keys_distinct d w \<Longrightarrow> keys_distinct d (snd (snd (expunge a s w)))"
  by (simp add: expunge_def)

lemma expunge_each_keys:
  "keys_distinct d w \<Longrightarrow> keys_distinct d (snd (snd (expunge_each as s w)))"
proof (induction as arbitrary: s w)
  case Nil
  then show ?case by simp
next
  case (Cons a as)
  show ?case
    unfolding expunge_each.simps
    by (rule then_do_keys, rule expunge_keys, rule Cons.prems) (simp add: Cons.IH)
qed

lemma refresh_keys: "keys_distinct d w \<Longrightarrow> keys_distinct d (snd (snd (refresh d a s w)))"
  by (simp add: refresh_def keys_distinct_def split: option.splits)

lemma setattr_all_keys: "keys_distinct d (setattr_all a fs w) = keys_distinct d w"
  by (simp add: setattr_all_conv keys_distinct_def)

lemma keys_distinct_alloc: "keys_distinct d (w\<lparr>heap := h, next_addr := n\<rparr>) = keys_distinct d w"
  by (simp add: keys_distinct_def)

lemma query_all_keys: "keys_distinct d w \<Longrightarrow> keys_distinct d (snd (snd (query_all d q s w)))"
  by (simp add: query_all_def load_rows_keys)

lemma query_first_keys:
  "keys_distinct d w \<Longrightarrow> keys_distinct d (snd (snd (query_first d q s w)))"
  unfolding query_first_def
  by (auto intro!: then_do_keys simp: load_row_keys split: list.splits)

lemmas keys_frames =
  load_row_keys load_rows_keys session_get_keys session_add_keys session_delete_keys
  expunge_keys expunge_each_keys flush_keys refresh_keys setattr_all_keys keys_distinct_alloc
  query_all_keys query_first_keys

lemma run_in_session_keys:
  assumes "\<And>s w. keys_distinct d w \<Longrightarrow> keys_distinct d (snd (snd (fn s w)))"
    and "keys_distinct d w"
  shows "keys_distinct d (snd (run_in_session d fn w))"
proof -
  let ?s = "\<lparr>identity_map = [], pending = [], deleted = []\<rparr>"
  let ?w = "w\<lparr>acquired := Suc (acquired w)\<rparr>"
  from assms(2) have "keys_distinct d ?w" by (simp add: keys_distinct_def)
  from assms(1) [OF this, of ?s] show ?thesis
    by (cases "fn ?s ?w")
      (simp add: run_in_session_def get_session_def release_session_def keys_distinct_def)
qed

lemma operations_keep_keys_distinct:
  assumes "keys_distinct d w"
  shows "keys_distinct d (snd (get d k w))"
    and "keys_distinct d (snd (list_dao d l off w))"
    and "keys_distinct d (snd (list_by d l off flt w))"
    and "keys_distinct d (snd (list_by_order_by d ob l off flt w))"
    and "keys_distinct d (snd (exists_dao d k w))"
    and "keys_distinct d (snd (create d fs w))"
    and "keys_distinct d (snd (update d k fs w))"
    and "keys_distinct d (snd (upsert d k fs w))"
    and "keys_distinct d (snd (delete d k w))"
proof -
  show "keys_distinct d (snd (get d k w))"
    unfolding get_def get_op_def using assms
    by (auto intro!: run_in_session_keys then_do_keys simp: keys_frames split: option.splits)
  show "keys_distinct d (snd (list_dao d l off w))"
    unfolding list_dao_def list_op_def using assms
    by (auto intro!: run_in_session_keys then_do_keys simp: keys_frames)
  show "keys_distinct d (snd (list_by d l off flt w))"
    unfolding list_by_def list_by_op_def using assms
    by (auto intro!: run_in_session_keys then_do_keys simp: keys_frames)
  show "keys_distinct d (snd (list_by_order_by d ob l off flt w))"
    unfolding list_by_order_by_def list_by_order_by_op_def using assms
    by (auto intro!: run_in_session_keys then_do_keys simp: keys_frames)
  show "keys_distinct d (snd (exists_dao d k w))"
    unfolding exists_dao_def exists_op_def using assms
    by (auto intro!: run_in_session_keys then_do_keys simp: keys_frames split: option.splits)
  show "keys_distinct d (snd (create d fs w))"
    unfolding create_def create_write_def using assms
    by (auto intro!: run_in_session_keys then_do_keys simp: keys_frames model_new_def)
  show "keys_distinct d (snd (update d k fs w))"
    unfolding update_def update_write_def using assms
    by (auto intro!: run_in_session_keys then_do_keys simp: keys_frames split: option.splits)
  show "keys_distinct d (snd (upsert d k fs w))"
    unfolding upsert_def upsert_write_def using assms
    by (auto intro!: run_in_session_keys then_do_keys simp: keys_frames model_new_def
        split: option.splits)
  show "keys_distinct d (snd (delete d k w))"
    unfolding delete_def delete_write_def using assms
    by (auto intro!: run_in_session_keys then_do_keys simp: keys_frames split: option.splits)
qed

section \<open>Listing\<close>

lemma in_session_expunged:
  "in_session b
     (s\<lparr>identity_map := filter (\<lambda>(a', key). a' \<noteq> a) (identity_map s),
        pending := removeAll a (pending s),
        deleted := filter (\<lambda>(a', key). a' \<noteq> a) (deleted s)\<rparr>) =
   (in_session b s \<and> b \<noteq> a)"
  by (auto simp: in_session_def)

lemma expunge_Inr:
  "expunge a s w = (Inr u, s', w') \<Longrightarrow>
   w' = w \<and> (\<forall>b. in_session b s' = (in_session b s \<and> b \<noteq> a))"
  by (auto simp: expunge_def in_session_expunged split: if_splits)

lemma expunge_in_session:
  "in_session a s \<Longrightarrow>
   \<exists>s'. expunge a s w = (Inr (), s', w) \<and> (\<forall>b. in_session b s' = (in_session b s \<and> b \<noteq> a))"
  by (simp add: expunge_def in_session_expunged)

lemma expunge_each_all:
  "distinct as \<Longrightarrow> \<forall>a \<in> set as. in_session a s \<Longrightarrow>
   \<exists>s'. expunge_each as s w = (Inr (), s', w) \<and>
        (\<forall>b. in_session b s' = (in_session b s \<and> b \<notin> set as))"
proof (induction as arbitrary: s)
  case Nil
  show ?case by simp
next
  case (Cons a as)
  from Cons.prems obtain s1 where
    1: "expunge a s w = (Inr (), s1, w)"
    and 2: "\<forall>b. in_session b s1 = (in_session b s \<and> b \<noteq> a)"
    using expunge_in_session [of a s w] by auto
  from Cons.prems 2 have "\<forall>b \<in> set as. in_session b s1" by auto
  with Cons.IH [of s1] Cons.prems obtain s' where
    3: "expunge_each as s1 w = (Inr (), s', w)"
    and 4: "\<forall>b. in_session b s' = (in_session b s1 \<and> b \<notin> set as)"
    by auto
  from 1 2 3 4 show ?case by auto
qed

lemma load_rows_new:
  "distinct (map (\<lambda>t. t (primary_key_attribute_name d)) rows) \<Longrightarrow>
   \<forall>t \<in> set rows. t (primary_key_attribute_name d) \<notin> snd ` set (identity_map s) \<Longrightarrow>
   \<exists>s' w'. load_rows d rows s w =
       (Inr [next_addr w ..< next_addr w + length rows], s', w') \<and>
     map (heap w') [next_addr w ..< next_addr w + length rows] = rows \<and>
     (\<forall>a < next_addr w. heap w' a = heap w a) \<and>
     w' = w\<lparr>heap := heap w', next_addr := next_addr w + length rows\<rparr> \<and>
     map fst (identity_map s') = map fst (identity_map s) @ [next_addr w ..< next_addr w + length rows]"
proof (induction rows arbitrary: s w)
  case Nil
  show ?case by simp
next
  case (Cons r rows)
  let ?pk = "primary_key_attribute_name d"
  let ?a = "next_addr w"
  let ?s1 = "s\<lparr>identity_map := identity_map s @ [(?a, r ?pk)]\<rparr>"
  let ?w1 = "w\<lparr>heap := (heap w)(?a := r), next_addr := Suc ?a\<rparr>"
  from Cons.prems(2) have "find (\<lambda>(a, key). key = r ?pk) (identity_map s) = None"
    by (force simp: find_None_iff)
  then have lr: "load_row d r s w = (Inr ?a, ?s1, ?w1)"
    by (simp add: load_row_def)
  from Cons.prems have d: "distinct (map (\<lambda>t. t ?pk) rows)"
    by simp
  from Cons.prems have n: "\<forall>t \<in> set rows. t ?pk \<notin> snd ` set (identity_map ?s1)"
    by (auto simp: image_iff)
  from Cons.IH [OF d n, of ?w1] obtain s' w' where
    1: "load_rows d rows ?s1 ?w1 = (Inr [Suc ?a ..< Suc ?a + length rows], s', w')"
    and 2: "map (heap w') [Suc ?a ..< Suc ?a + length rows] = rows"
    and 3: "\<forall>a < Suc ?a. heap w' a = heap ?w1 a"
    and 4: "w' = ?w1\<lparr>heap := heap w', next_addr := Suc ?a + length rows\<rparr>"
    and 5: "map fst (identity_map s') = map fst (identity_map ?s1) @ [Suc ?a ..< Suc ?a + length rows]"
    by auto
  have u: "[?a ..< ?a + length (r # rows)] = ?a # [Suc ?a ..< Suc ?a + length rows]"
    by (subst upt_rec) (simp del: upt_Suc)
  have A: "load_rows d (r # rows) s w = (Inr [?a ..< ?a + length (r # rows)], s', w')"
    unfolding u by (simp add: lr 1)
  have B: "map (heap w') [?a ..< ?a + length (r # rows)] = r # rows"
    unfolding u using 2 3 by simp
  have C: "\<forall>a < ?a. heap w' a = heap w a"
    using 3 by simp
  have D: "w' = w\<lparr>heap := heap w', next_addr := ?a + length (r # rows)\<rparr>"
    by (subst 4) simp
  have E: "map fst (identity_map s') =
      map fst (identity_map s) @ [?a ..< ?a + length (r # rows)]"
    unfolding u using 5 by simp
  show ?case
    apply (rule exI [of _ s'], rule exI [of _ w'])
    apply (intro conjI)
        apply (rule A, rule B, rule C, rule D, rule E)
    done
qed

lemma select_rows_paginate:
  "select_rows (paginate limit offset session_query) rows =
   (if limit > 0 then take (nat limit) else id) ((if offset > 0 then drop (nat offset) else id) rows)"
  by (simp add: select_rows_def paginate_def session_query_def offset_q_def limit_q_def Let_def)

lemma distinct_page:
  "distinct (map f rows) \<Longrightarrow>
   distinct (map f ((if limit > 0 then take (nat limit) else id)
                     ((if offset > 0 then drop (nat offset) else id) rows)))"
  by (simp add: take_map [symmetric] drop_map [symmetric] del: take_map drop_map)

text \<open>
  Claim C7. On a table whose primary keys are distinct, \<^verbatim>\<open>list(limit, offset)\<close>
  returns new instances that hold, in the store's order, the rows of the table after
  dropping the first \<open>offset\<close> rows when \<open>offset > 0\<close> (none otherwise) and keeping at
  most \<open>limit\<close> of the rest when \<open>limit > 0\<close> (all of them otherwise); the table is
  unchanged.
\<close>

theorem list_pagination:
  assumes "keys_distinct d w"
  shows "\<exists>as w'. list_dao d limit offset w = (Inr as, w') \<and>
           map (heap w') as =
             (if limit > 0 then take (nat limit) else id)
               ((if offset > 0 then drop (nat offset) else id) (table w)) \<and>
           table w' = table w"
proof -
  let ?pk = "primary_key_attribute_name d"
  let ?rows = "(if limit > 0 then take (nat limit) else id)
                 ((if offset > 0 then drop (nat offset) else id) (table w))"
  let ?s0 = "\<lparr>identity_map = [], pending = [], deleted = []\<rparr>"
  let ?w1 = "w\<lparr>acquired := Suc (acquired w)\<rparr>"
  let ?as = "[next_addr w ..< next_addr w + length ?rows]"
  have dr: "distinct (map (\<lambda>t. t ?pk) ?rows)"
    using assms unfolding keys_distinct_def by (rule distinct_page)
  from load_rows_new [OF dr, of ?s0 ?w1] obtain s1 w2 where
    1: "load_rows d ?rows ?s0 ?w1 = (Inr ?as, s1, w2)"
    and 2: "map (heap w2) ?as = ?rows"
    and 4: "w2 = ?w1\<lparr>heap := heap w2, next_addr := next_addr w + length ?rows\<rparr>"
    and 5: "map fst (identity_map s1) = ?as"
    by auto
  have q: "query_all d (paginate limit offset session_query) ?s0 ?w1 = (Inr ?as, s1, w2)"
    using 1 by (simp add: query_all_def select_rows_paginate)
  have "\<forall>a \<in> set ?as. in_session a s1"
    using 5 by (simp add: in_session_def)
  with expunge_each_all [of ?as s1 w2] obtain s2 where
    e: "expunge_each ?as s1 w2 = (Inr (), s2, w2)"
    by auto
  have "list_dao d limit offset w = (Inr ?as, release_session s2 w2)"
    by (simp add: list_dao_def run_in_session_def get_session_def list_op_def q e)
  moreover have "map (heap (release_session s2 w2)) ?as = ?rows"
    using 2 by (simp add: release_session_def)
  moreover have "table (release_session s2 w2) = table w"
    by (subst 4) (simp add: release_session_def)
  ultimately show ?thesis by blast
qed

lemma three_users_distinct:
  "keys_distinct user_dao
     (initial_world [user_row 1 ''ann'', user_row 2 ''bob'', user_row 3 ''cy''] (Some 8))"
  by (simp add: keys_distinct_def initial_world_def user_dao_def user_row_def)

theorem list_pagination_witness:
  "keys_distinct user_dao
     (initial_world [user_row 1 ''ann'', user_row 2 ''bob'', user_row 3 ''cy''] (Some 8)) \<and>
   (\<exists>as w'. list_dao user_dao 1 1
        (initial_world [user_row 1 ''ann'', user_row 2 ''bob'', user_row 3 ''cy''] (Some 8)) =
        (Inr as, w') \<and>
      map (heap w') as = [user_row 2 ''bob'']) \<and>
   (\<exists>as w'. list_dao user_dao 0 (- 1)
        (initial_world [user_row 1 ''ann'', user_row 2 ''bob'', user_row 3 ''cy''] (Some 8)) =
        (Inr as, w') \<and>
      map (heap w') as = [user_row 1 ''ann'', user_row 2 ''bob'', user_row 3 ''cy''])"
proof -
  let ?w = "initial_world [user_row 1 ''ann'', user_row 2 ''bob'', user_row 3 ''cy''] (Some 8)"
  have t: "table ?w = [user_row 1 ''ann'', user_row 2 ''bob'', user_row 3 ''cy'']"
    by (simp add: initial_world_def)
  from list_pagination [OF three_users_distinct, of 1 1]
  have A: "\<exists>as w'. list_dao user_dao 1 1 ?w = (Inr as, w') \<and>
      map (heap w') as = [user_row 2 ''bob'']"
    by (auto simp: t)
  from list_pagination [OF three_users_distinct, of 0 "- 1"]
  have B: "\<exists>as w'. list_dao user_dao 0 (- 1) ?w = (Inr as, w') \<and>
      map (heap w') as = [user_row 1 ''ann'', user_row 2 ''bob'', user_row 3 ''cy'']"
    by (auto simp: t)
  from three_users_distinct A B show ?thesis by blast
qed

section \<open>Detachment of returned instances\<close>

lemma then_do_InrE:
  assumes "then_do r f = (Inr x, s', w')"
  obtains v s1 w1 where "r = (Inr v, s1, w1)" and "f v s1 w1 = (Inr x, s', w')"
proof (cases r)
  case (fields res s1 w1)
  with assms show ?thesis
    by (cases res) (auto intro: that)
qed

lemma expunge_detaches: "expunge a s w = (Inr u, s', w') \<Longrightarrow> \<not> in_session a s'"
  by (auto simp: expunge_def in_session_def split: if_splits)

lemma expunge_keeps_out:
  "expunge a s w = (Inr u, s', w') \<Longrightarrow> \<not> in_session b s \<Longrightarrow> \<not> in_session b s'"
  by (auto simp: expunge_def in_session_def split: if_splits)

lemma expunge_each_keeps_out:
  "expunge_each as s w = (Inr u, s', w') \<Longrightarrow> \<not> in_session b s \<Longrightarrow> \<not> in_session b s'"
proof (induction as arbitrary: s w)
  case Nil
  then show ?case by simp
next
  case (Cons a as)
  from Cons.prems(1) obtain v s1 w1 where
    1: "expunge a s w = (Inr v, s1, w1)" and 2: "expunge_each as s1 w1 = (Inr u, s', w')"
    by (auto elim: then_do_InrE)
  from 1 Cons.prems(2) have "\<not> in_session b s1" by (rule expunge_keeps_out)
  with 2 show ?case by (rule Cons.IH)
qed

lemma expunge_each_detaches:
  "expunge_each as s w = (Inr u, s', w') \<Longrightarrow> e \<in> set as \<Longrightarrow> \<not> in_session e s'"
proof (induction as arbitrary: s w)
  case Nil
  then show ?case by simp
next
  case (Cons a as)
  from Cons.prems(1) obtain v s1 w1 where
    1: "expunge a s w = (Inr v, s1, w1)" and 2: "expunge_each as s1 w1 = (Inr u, s', w')"
    by (auto elim: then_do_InrE)
  show ?case
  proof (cases "e = a")
    case True
    with 1 have "\<not> in_session e s1" by (simp add: expunge_detaches)
    with 2 show ?thesis by (rule expunge_each_keeps_out)
  next
    case False
    with Cons.prems(2) have "e \<in> set as" by simp
    with 2 show ?thesis by (rule Cons.IH)
  qed
qed

lemma get_op_detached: "get_op d k s0 w0 = (Inr (Some e), s, w) \<Longrightarrow> \<not> in_session e s"
  unfolding get_op_def
  by (auto elim!: then_do_InrE split: option.splits dest: expunge_detaches)

lemma list_op_detached:
  "list_op d limit offset s0 w0 = (Inr es, s, w) \<Longrightarrow> e \<in> set es \<Longrightarrow> \<not> in_session e s"
  unfolding list_op_def
  by (auto elim!: then_do_InrE dest: expunge_each_detaches)

lemma create_write_detached:
  "create_write d fs s0 w0 = (Inr e, s, w) \<Longrightarrow> \<not> in_session e s"
  unfolding create_write_def
  by (auto elim!: then_do_InrE split: prod.splits dest: expunge_detaches)

lemma update_write_detached:
  "update_write d k fs s0 w0 = (Inr (Some e), s, w) \<Longrightarrow> \<not> in_session e s"
  unfolding update_write_def
  by (auto elim!: then_do_InrE split: option.splits dest: expunge_detaches)

lemma upsert_write_detached:
  "upsert_write d k fs s0 w0 = (Inr e, s, w) \<Longrightarrow> \<not> in_session e s"
  unfolding upsert_write_def
  by (auto elim!: then_do_InrE split: option.splits prod.splits dest: expunge_detaches)

lemma get_ignores_heap:
  "fst (get d k (w\<lparr>heap := h\<rparr>)) = fst (get d k w) \<and>
   table (snd (get d k (w\<lparr>heap := h\<rparr>))) = table (snd (get d k w)) \<and>
   (case fst (get d k w) of
      Inr (Some a) \<Rightarrow> heap (snd (get d k (w\<lparr>heap := h\<rparr>))) a = heap (snd (get d k w)) a
    | _ \<Rightarrow> True)"
proof (cases "find_row (primary_key_attribute_name d) (Some k) (table w)")
  case None
  then have "find_row (primary_key_attribute_name d) (Some k) (table (w\<lparr>heap := h\<rparr>)) = None"
    by simp
  with None show ?thesis by (simp add: get_absent)
next
  case (Some r)
  then have "find_row (primary_key_attribute_name d) (Some k) (table (w\<lparr>heap := h\<rparr>)) = Some r"
    by simp
  with Some show ?thesis by (simp add: get_present)
qed

text \<open>
  Claim C5. An instance that the function of \<^verbatim>\<open>get\<close>, \<^verbatim>\<open>list\<close>, \<^verbatim>\<open>create\<close>,
  \<^verbatim>\<open>update\<close> or \<^verbatim>\<open>upsert\<close> returns is no longer in its session when the function
  returns. And after any of these methods has returned the instance \<open>e\<close>, setting an
  attribute of \<open>e\<close> changes nothing in what a later \<^verbatim>\<open>get\<close> of any key gives: the
  same result, the same table afterwards, and the same attributes in the instance it
  returns.
\<close>

theorem returned_entities_detached:
  "(expunged_result d s0 w0 e s \<longrightarrow> \<not> in_session e s) \<and>
   (returned d w0 e w \<longrightarrow>
      fst (get d k (setattr e n v w)) = fst (get d k w) \<and>
      table (snd (get d k (setattr e n v w))) = table (snd (get d k w)) \<and>
      (case fst (get d k w) of
         Inr (Some a) \<Rightarrow> heap (snd (get d k (setattr e n v w))) a = heap (snd (get d k w)) a
       | _ \<Rightarrow> True))"
proof (rule conjI)
  show "expunged_result d s0 w0 e s \<longrightarrow> \<not> in_session e s"
  proof
    assume "expunged_result d s0 w0 e s"
    then show "\<not> in_session e s"
      by (cases rule: expunged_result.cases)
        (auto dest: get_op_detached list_op_detached create_write_detached
          update_write_detached upsert_write_detached)
  qed
next
  show "returned d w0 e w \<longrightarrow>
      fst (get d k (setattr e n v w)) = fst (get d k w) \<and>
      table (snd (get d k (setattr e n v w))) = table (snd (get d k w)) \<and>
      (case fst (get d k w) of
         Inr (Some a) \<Rightarrow> heap (snd (get d k (setattr e n v w))) a = heap (snd (get d k w)) a
       | _ \<Rightarrow> True)"
    unfolding setattr_def by (rule impI) (rule get_ignores_heap)
qed

theorem returned_entities_detached_witness:
  "expunged_result user_dao \<lparr>identity_map = [], pending = [], deleted = []\<rparr>
     (initial_world [user_row 1 ''ann''] (Some 8)) 0
     \<lparr>identity_map = [], pending = [], deleted = []\<rparr> \<and>
   \<not> in_session 0 \<lparr>identity_map = [], pending = [], deleted = []\<rparr> \<and>
   returned user_dao (initial_world [user_row 1 ''ann''] (Some 8)) 0
     (snd (update user_dao (VInt 1) [(''name'', Some (VStr ''amy''))]
            (initial_world [user_row 1 ''ann''] (Some 8)))) \<and>
   fst (get user_dao (VInt 1)
         (setattr 0 ''name'' (Some (VStr ''zed''))
           (snd (update user_dao (VInt 1) [(''name'', Some (VStr ''amy''))]
                  (initial_world [user_row 1 ''ann''] (Some 8)))))) =
   fst (get user_dao (VInt 1)
         (snd (update user_dao (VInt 1) [(''name'', Some (VStr ''amy''))]
                (initial_world [user_row 1 ''ann''] (Some 8)))))"
proof -
  let ?w = "initial_world [user_row 1 ''ann''] (Some 8)"
  let ?s0 = "\<lparr>identity_map = [], pending = [], deleted = []\<rparr>"
  let ?w1 = "snd (update user_dao (VInt 1) [(''name'', Some (VStr ''amy''))] ?w)"
  have t: "table ?w = [user_row 1 ''ann'']" "next_addr ?w = 0"
    by (simp_all add: initial_world_def)
  have f: "find_row (primary_key_attribute_name user_dao) (Some (VInt 1)) (table ?w) =
           Some (user_row 1 ''ann'')"
    by (simp add: t user_table_lookup user_dao_def)
  have v: "assign_all [(''name'', Some (VStr ''amy''))] (user_row 1 ''ann'')
             (primary_key_attribute_name user_dao) = Some (VInt 1)"
    by (simp add: assign_all_def user_row_def user_dao_def)
  have u: "update user_dao (VInt 1) [(''name'', Some (VStr ''amy''))] ?w = (Inr (Some 0), ?w1)"
    by (simp add: update_present [OF f refl v] t(2))
  have g: "get_op user_dao (VInt 1) ?s0 ?w =
           (Inr (Some 0), ?s0, snd (snd (get_op user_dao (VInt 1) ?s0 ?w)))"
    by (simp add: get_op_def session_get_fresh f t(2) expunge_def in_session_def)
  have E: "expunged_result user_dao ?s0 ?w 0 ?s0"
    using g by (rule expunged_result.intros(1))
  have R: "returned user_dao ?w 0 ?w1"
    using u by (rule returned.intros(4))
  from returned_entities_detached [of user_dao ?s0 ?w 0 ?s0 ?w1 "VInt 1" "''name''" "Some (VStr ''zed'')"]
    E R
  have "\<not> in_session 0 ?s0"
    and "fst (get user_dao (VInt 1) (setattr 0 ''name'' (Some (VStr ''zed'')) ?w1)) =
         fst (get user_dao (VInt 1) ?w1)"
    by blast+
  with E R show ?thesis by blast
qed

end
